theory Spec2Isabelle
  imports Complex_Main
begin

section \<open>The gaze tracker of \<^verbatim>\<open>src/eyeball_tracker.py\<close>\<close>

text \<open>
  The development embeds the class \<^verbatim>\<open>EyeballTracker\<close>: its constructor, the two-stage
  smoothing of \<^verbatim>\<open>_smooth_direction\<close>, one iteration of \<^verbatim>\<open>_tracking_loop\<close>,
  \<^verbatim>\<open>get_direction\<close> and \<^verbatim>\<open>cleanup\<close>.

  Conventions of the embedding:
  \<^item> Python floats (and numpy's float64) are read as real numbers: arithmetic is exact, there
    is no rounding, no infinity and no NaN.
  \<^item> The camera, the cascade classifiers and \<^verbatim>\<open>cv2.flip\<close> are outside the program. What
    \<^verbatim>\<open>cap.read()\<close> answers and what \<^verbatim>\<open>detect_face_position\<close> returns on the mirrored
    frame are inputs of a tick.
  \<^item> \<^verbatim>\<open>detect_face_position\<close> returns either two floats or \<^verbatim>\<open>(None, None)\<close> (lines 84
    and 86), so the two arguments of \<^verbatim>\<open>_smooth_direction\<close> are absent together or present
    together: a target is an optional pair.
  \<^item> \<^verbatim>\<open>time.sleep\<close> changes no state and is not represented.
\<close>

subsection \<open>Data\<close>

text \<open>The exceptions \<^verbatim>\<open>numpy.average\<close> can raise.\<close>

datatype py_error = TypeError | ZeroDivisionError

text \<open>\<^verbatim>\<open>collections.deque(maxlen=n)\<close>: the bound is fixed when the deque is built.\<close>

record deque =
  maxlen :: nat
  items :: "real list"

type_synonym target = "(real \<times> real) option"

text \<open>
  The attributes of an \<^verbatim>\<open>EyeballTracker\<close>. Of the capture object only the number of
  \<^verbatim>\<open>release()\<close> calls it has received is kept.
\<close>

record tracker =
  history_size :: nat
  dx_history :: deque
  dy_history :: deque
  dx :: real
  dy :: real
  raw_dx :: real
  raw_dy :: real
  smoothing_factor :: real
  running :: bool
  cap_released :: nat

subsection \<open>Construction (lines 27 to 41)\<close>

definition new_deque :: "nat \<Rightarrow> deque" where
  "new_deque n = \<lparr>maxlen = n, items = []\<rparr>"

definition init_tracker :: tracker where
  "init_tracker =
     \<lparr>history_size = 20,
      dx_history = new_deque 20,
      dy_history = new_deque 20,
      dx = 0,
      dy = 0,
      raw_dx = 0,
      raw_dy = 0,
      smoothing_factor = 0.20,
      running = True,
      cap_released = 0\<rparr>"

subsection \<open>Library operations used by the smoothing\<close>

text \<open>
  \<^verbatim>\<open>deque.append\<close>: the element is added on the right; when this makes the deque longer
  than its bound, one element is removed on the left.
\<close>

definition deque_append :: "deque \<Rightarrow> real \<Rightarrow> deque" where
  "deque_append d x =
     (let ys = items d @ [x]
      in d\<lparr>items := (if maxlen d < length ys then tl ys else ys)\<rparr>)"

definition len :: "deque \<Rightarrow> nat" where
  "len d = length (items d)"

text \<open>
  \<^verbatim>\<open>numpy.linspace(start, stop, num)\<close>: \<open>num\<close> points, the \<open>i\<close>-th being
  \<open>start + i * step\<close> with \<open>step = (stop - start) / (num - 1)\<close>.
\<close>

definition linspace :: "real \<Rightarrow> real \<Rightarrow> nat \<Rightarrow> real list" where
  "linspace start stop num =
     map (\<lambda>i. start + real i * ((stop - start) / real (num - 1))) [0..<num]"

definition np_exp :: "real list \<Rightarrow> real list" where
  "np_exp xs = map exp xs"

text \<open>\<^verbatim>\<open>weights / weights.sum()\<close>\<close>

definition normalize :: "real list \<Rightarrow> real list" where
  "normalize ws = map (\<lambda>w. w / sum_list ws) ws"

text \<open>
  \<^verbatim>\<open>numpy.average(a, weights=w)\<close> on one-dimensional data: it raises \<^verbatim>\<open>TypeError\<close> when
  the shapes differ, \<^verbatim>\<open>ZeroDivisionError\<close> when the weights sum to zero, and otherwise
  returns \<open>sum (a * w) / sum w\<close>.
\<close>

definition np_average :: "real list \<Rightarrow> real list \<Rightarrow> py_error + real" where
  "np_average a w =
     (if length a \<noteq> length w then Inl TypeError
      else if sum_list w = 0 then Inl ZeroDivisionError
      else Inr (sum_list (map2 (\<lambda>x y. x * y) a w) / sum_list w))"

subsection \<open>\<^verbatim>\<open>_smooth_direction\<close> (lines 88 to 105)\<close>

text \<open>Lines 92 and 93: the sample is appended to both histories.\<close>

definition append_history :: "tracker \<Rightarrow> real \<Rightarrow> real \<Rightarrow> tracker" where
  "append_history s target_dx target_dy =
     s\<lparr>dx_history := deque_append (dx_history s) target_dx,
       dy_history := deque_append (dy_history s) target_dy\<rparr>"

text \<open>
  Lines 95 to 101: with at least five samples the exponentially weighted averages of the
  two histories become the raw direction; with fewer nothing is assigned.
\<close>

definition update_raw :: "tracker \<Rightarrow> py_error + tracker" where
  "update_raw s =
     (if 5 \<le> len (dx_history s) then
        (let weights = np_exp (linspace 0 1 (len (dx_history s)));
             weights = normalize weights
         in case np_average (items (dx_history s)) weights of
              Inl e \<Rightarrow> Inl e
            | Inr ax \<Rightarrow>
               (case np_average (items (dy_history s)) weights of
                  Inl e \<Rightarrow> Inl e
                | Inr ay \<Rightarrow> Inr (s\<lparr>raw_dx := ax, raw_dy := ay\<rparr>)))
      else Inr s)"

text \<open>Lines 104 and 105: the interpolation towards the raw direction.\<close>

definition advance :: "tracker \<Rightarrow> tracker" where
  "advance s =
     s\<lparr>dx := dx s + (raw_dx s - dx s) * smoothing_factor s,
       dy := dy s + (raw_dy s - dy s) * smoothing_factor s\<rparr>"

definition smooth_direction :: "tracker \<Rightarrow> target \<Rightarrow> py_error + tracker" where
  "smooth_direction s t =
     (case t of
        None \<Rightarrow> Inr (advance s)
      | Some (target_dx, target_dy) \<Rightarrow>
         (case update_raw (append_history s target_dx target_dy) of
            Inl e \<Rightarrow> Inl e
          | Inr s' \<Rightarrow> Inr (advance s')))"

text \<open>Successive calls; an exception ends the sequence.\<close>

fun smooth_all :: "tracker \<Rightarrow> target list \<Rightarrow> py_error + tracker" where
  "smooth_all s [] = Inr s"
| "smooth_all s (t # ts) =
     (case smooth_direction s t of Inl e \<Rightarrow> Inl e | Inr s' \<Rightarrow> smooth_all s' ts)"

subsection \<open>\<^verbatim>\<open>_tracking_loop\<close>, \<^verbatim>\<open>get_direction\<close> and \<^verbatim>\<open>cleanup\<close>\<close>

text \<open>
  What one iteration receives from outside: the flag \<^verbatim>\<open>ret\<close> of \<^verbatim>\<open>cap.read()\<close> and the
  result of \<^verbatim>\<open>detect_face_position\<close> (consulted only when \<^verbatim>\<open>ret\<close> holds).
\<close>

type_synonym tick_input = "bool \<times> target"

text \<open>Lines 110 to 116, the body of the loop.\<close>

definition tracking_tick :: "tracker \<Rightarrow> tick_input \<Rightarrow> py_error + tracker" where
  "tracking_tick s inp =
     (case inp of (ret, detected) \<Rightarrow>
        if ret then smooth_direction s detected else Inr s)"

definition get_direction :: "tracker \<Rightarrow> real \<times> real" where
  "get_direction s = (dx s, dy s)"

text \<open>Lines 124 and 125: the flag is cleared, then the capture is released.\<close>

definition cleanup :: "tracker \<Rightarrow> tracker" where
  "cleanup s = (let s1 = s\<lparr>running := False\<rparr> in s1\<lparr>cap_released := cap_released s1 + 1\<rparr>)"

text \<open>
  The background thread is at the test of \<^verbatim>\<open>while self.running\<close> (line 109), inside the
  body of the loop, or has left the loop.
\<close>

datatype loop_pc = AtWhile | InBody | Exited

type_synonym system = "loop_pc \<times> tracker"

text \<open>
  One move of the background thread. At the test it enters the body or leaves the loop,
  and the input is not looked at; in the body it runs the tick and returns to the test.
  An exception raised by the tick is not caught by the loop: the result is \<open>Inl\<close>.
\<close>

fun loop_step :: "system \<Rightarrow> tick_input \<Rightarrow> py_error + system" where
  "loop_step (AtWhile, s) inp = Inr (if running s then (InBody, s) else (Exited, s))"
| "loop_step (InBody, s) inp =
     (case tracking_tick s inp of Inl e \<Rightarrow> Inl e | Inr s' \<Rightarrow> Inr (AtWhile, s'))"
| "loop_step (Exited, s) inp = Inr (Exited, s)"

text \<open>
  The thread that serves requests calls \<^verbatim>\<open>cleanup\<close> while the background thread is
  somewhere in its loop. A schedule lists, in order, the moves of the background thread
  and the calls of \<^verbatim>\<open>cleanup\<close>.
\<close>

datatype event = Loop tick_input | Cleanup

fun run :: "system \<Rightarrow> event list \<Rightarrow> py_error + system" where
  "run sys [] = Inr sys"
| "run sys (Cleanup # es) = run (fst sys, cleanup (snd sys)) es"
| "run sys (Loop inp # es) =
     (case loop_step sys inp of Inl e \<Rightarrow> Inl e | Inr sys' \<Rightarrow> run sys' es)"

text \<open>The constructor starts the thread: it stands at the test of the loop.\<close>

definition init_system :: system where
  "init_system = (AtWhile, init_tracker)"

section \<open>Vocabulary of the specification\<close>

text \<open>
  The weight the specification gives to position \<open>i\<close> of a history of \<open>n\<close> samples
  (position \<open>0\<close> is the oldest): \<open>exp (i / (n - 1))\<close>, divided by the sum of these
  numbers over all positions.
\<close>

definition spec_weight :: "nat \<Rightarrow> nat \<Rightarrow> real" where
  "spec_weight n i = exp (real i / real (n - 1)) / (\<Sum>j<n. exp (real j / real (n - 1)))"

text \<open>The weighted average of the specification: the sum of weight times sample.\<close>

definition spec_weighted_average :: "real list \<Rightarrow> real" where
  "spec_weighted_average xs = (\<Sum>i<length xs. spec_weight (length xs) i * xs ! i)"

text \<open>The last \<open>c\<close> elements of a sequence, in their order (all of it when it is shorter).\<close>

definition newest :: "nat \<Rightarrow> 'a list \<Rightarrow> 'a list" where
  "newest c xs = drop (length xs - c) xs"

text \<open>The samples that are present in a sequence of targets, in their order.\<close>

fun detections :: "target list \<Rightarrow> (real \<times> real) list" where
  "detections [] = []"
| "detections (None # ts) = detections ts"
| "detections (Some p # ts) = p # detections ts"

text \<open>How often a schedule calls \<^verbatim>\<open>cleanup\<close>.\<close>

definition cleanup_calls :: "event list \<Rightarrow> nat" where
  "cleanup_calls es = length (filter (\<lambda>e. e = Cleanup) es)"

section \<open>Auxiliary notions\<close>

text \<open>The weights that lines 97 and 98 compute for a history of \<open>n\<close> samples.\<close>

definition weights_of :: "nat \<Rightarrow> real list" where
  "weights_of n = normalize (np_exp (linspace 0 1 n))"

text \<open>The two histories run in parallel: same bound, same length.\<close>

definition parallel :: "tracker \<Rightarrow> bool" where
  "parallel s \<longleftrightarrow>
     len (dy_history s) = len (dx_history s) \<and> maxlen (dy_history s) = maxlen (dx_history s)"

text \<open>
  What lines 95 to 101 leave behind when no exception is raised (\<open>update_raw_parallel\<close>
  shows that this is the case on parallel histories).
\<close>

definition raw_updated :: "tracker \<Rightarrow> tracker" where
  "raw_updated s =
     (if 5 \<le> len (dx_history s)
      then s\<lparr>raw_dx := spec_weighted_average (items (dx_history s)),
             raw_dy := spec_weighted_average (items (dy_history s))\<rparr>
      else s)"

text \<open>Parallel histories and the smoothing factor of the constructor.\<close>

definition tuned :: "tracker \<Rightarrow> bool" where
  "tuned s \<longleftrightarrow> parallel s \<and> smoothing_factor s = 1 / 5"

text \<open>Every horizontal (vertical) value of the state lies in \<open>[-B, B]\<close>.\<close>

definition bounded_x :: "real \<Rightarrow> tracker \<Rightarrow> bool" where
  "bounded_x B s \<longleftrightarrow>
     (\<forall>v\<in>set (items (dx_history s)). \<bar>v\<bar> \<le> B) \<and> \<bar>raw_dx s\<bar> \<le> B \<and> \<bar>dx s\<bar> \<le> B"

definition bounded_y :: "real \<Rightarrow> tracker \<Rightarrow> bool" where
  "bounded_y B s \<longleftrightarrow>
     (\<forall>v\<in>set (items (dy_history s)). \<bar>v\<bar> \<le> B) \<and> \<bar>raw_dy s\<bar> \<le> B \<and> \<bar>dy s\<bar> \<le> B"

section \<open>Binary64 arithmetic\<close>

text \<open>
  The definitions above compute with real numbers. The program computes with IEEE 754
  binary64 numbers, and every operation rounds its exact result to the nearest
  representable number, ties going to the even significand. The rounding is defined here
  on the reals; the exponent is not bounded above, so overflow to infinity is not
  represented (the statements below keep all magnitudes far from it).
\<close>

text \<open>Rounding to the nearest integer, ties to the even one.\<close>

definition round_even :: "real \<Rightarrow> int" where
  "round_even t =
     (if t - of_int \<lfloor>t\<rfloor> < 1 / 2 then \<lfloor>t\<rfloor>
      else if 1 / 2 < t - of_int \<lfloor>t\<rfloor> then \<lfloor>t\<rfloor> + 1
      else if even \<lfloor>t\<rfloor> then \<lfloor>t\<rfloor> else \<lfloor>t\<rfloor> + 1)"

text \<open>
  The exponent of the unit in the last place of \<open>x\<close>: 53 significant bits, and the
  subnormal numbers are the multiples of \<open>2\<^sup>-\<^sup>1\<^sup>0\<^sup>7\<^sup>4\<close>.
\<close>

definition ulp_exp :: "real \<Rightarrow> int" where
  "ulp_exp x = max (\<lfloor>log 2 \<bar>x\<bar>\<rfloor> - 52) (- 1074)"

definition ulp :: "real \<Rightarrow> real" where
  "ulp x = 2 powr of_int (ulp_exp x)"

text \<open>The binary64 number nearest to \<open>x\<close>.\<close>

definition fl :: "real \<Rightarrow> real" where
  "fl x = (if x = 0 then 0 else of_int (round_even (x / ulp x)) * ulp x)"

text \<open>
  The binary64 numbers of magnitude at most \<open>2\<^sup>1\<^sup>0\<^sup>2\<^sup>2\<close>: the difference of two of them
  does not overflow.
\<close>

definition f64 :: "real \<Rightarrow> bool" where
  "f64 x \<longleftrightarrow> fl x = x \<and> \<bar>x\<bar> \<le> 2 ^ 1022"

text \<open>The number that the literal \<^verbatim>\<open>0.20\<close> of line 38 denotes.\<close>

definition alpha64 :: real where
  "alpha64 = fl 0.20"

definition init_tracker_f64 :: tracker where
  "init_tracker_f64 = init_tracker\<lparr>smoothing_factor := alpha64\<rparr>"

text \<open>
  Lines 104 and 105 in binary64: the subtraction, the multiplication and the addition of
  \<^verbatim>\<open>self.dx += (self.raw_dx - self.dx) * self.smoothing_factor\<close> round one after the other.
\<close>

definition advance_f64 :: "tracker \<Rightarrow> tracker" where
  "advance_f64 s =
     s\<lparr>dx := fl (dx s + fl (fl (raw_dx s - dx s) * smoothing_factor s)),
       dy := fl (dy s + fl (fl (raw_dy s - dy s) * smoothing_factor s))\<rparr>"

text \<open>The same update on one component, with factor \<open>a\<close>, value \<open>v\<close> and target \<open>r\<close>.\<close>

definition step64 :: "real \<Rightarrow> real \<Rightarrow> real \<Rightarrow> real" where
  "step64 a v r = fl (v + fl (fl (r - v) * a))"

section \<open>The interpolation step\<close>

lemma advance_fields:
  "dx (advance s) = dx s + (raw_dx s - dx s) * smoothing_factor s"
  "dy (advance s) = dy s + (raw_dy s - dy s) * smoothing_factor s"
  "raw_dx (advance s) = raw_dx s"
  "raw_dy (advance s) = raw_dy s"
  "smoothing_factor (advance s) = smoothing_factor s"
  "dx_history (advance s) = dx_history s"
  "dy_history (advance s) = dy_history s"
  "history_size (advance s) = history_size s"
  "running (advance s) = running s"
  "cap_released (advance s) = cap_released s"
  by (simp_all add: advance_def)

text \<open>
  Claim C5. In a state whose raw value equals the smoothed value, one interpolation step
  leaves the smoothed value as it is; this holds for the horizontal and for the vertical
  component.
\<close>

theorem advance_fixed_point:
  "(raw_dx s = dx s \<longrightarrow> dx (advance s) = dx s) \<and>
   (raw_dy s = dy s \<longrightarrow> dy (advance s) = dy s)"
  by (simp add: advance_fields)

theorem advance_fixed_point_witness:
  "raw_dx init_tracker = dx init_tracker \<and> dx (advance init_tracker) = dx init_tracker \<and>
   raw_dy init_tracker = dy init_tracker \<and> dy (advance init_tracker) = dy init_tracker"
  using advance_fixed_point [of init_tracker] by (simp add: init_tracker_def)

subsection \<open>Geometric convergence\<close>

lemma advance_funpow_fixed:
  "raw_dx ((advance ^^ n) s) = raw_dx s \<and> raw_dy ((advance ^^ n) s) = raw_dy s \<and>
   smoothing_factor ((advance ^^ n) s) = smoothing_factor s"
  by (induction n) (simp_all add: advance_fields)

lemma advance_error_x:
  "raw_dx s - dx (advance s) = (1 - smoothing_factor s) * (raw_dx s - dx s)"
  by (simp add: advance_fields algebra_simps)

lemma advance_error_y:
  "raw_dy s - dy (advance s) = (1 - smoothing_factor s) * (raw_dy s - dy s)"
  by (simp add: advance_fields algebra_simps)

lemma advance_funpow_error_x:
  "raw_dx s - dx ((advance ^^ n) s) = (1 - smoothing_factor s) ^ n * (raw_dx s - dx s)"
proof (induction n)
  case 0
  show ?case by simp
next
  case (Suc n)
  let ?t = "(advance ^^ n) s"
  have "raw_dx s - dx ((advance ^^ Suc n) s) = raw_dx ?t - dx (advance ?t)"
    by (simp add: advance_funpow_fixed)
  also have "\<dots> = (1 - smoothing_factor ?t) * (raw_dx ?t - dx ?t)"
    by (rule advance_error_x)
  also have "\<dots> = (1 - smoothing_factor s) * (raw_dx s - dx ?t)"
    by (simp add: advance_funpow_fixed)
  finally show ?case
    by (simp add: Suc.IH)
qed

lemma advance_funpow_error_y:
  "raw_dy s - dy ((advance ^^ n) s) = (1 - smoothing_factor s) ^ n * (raw_dy s - dy s)"
proof (induction n)
  case 0
  show ?case by simp
next
  case (Suc n)
  let ?t = "(advance ^^ n) s"
  have "raw_dy s - dy ((advance ^^ Suc n) s) = raw_dy ?t - dy (advance ?t)"
    by (simp add: advance_funpow_fixed)
  also have "\<dots> = (1 - smoothing_factor ?t) * (raw_dy ?t - dy ?t)"
    by (rule advance_error_y)
  also have "\<dots> = (1 - smoothing_factor s) * (raw_dy s - dy ?t)"
    by (simp add: advance_funpow_fixed)
  finally show ?case
    by (simp add: Suc.IH)
qed

lemma shrink_between:
  fixes r v v' q :: real
  assumes "r - v' = q * (r - v)" "0 \<le> q" "q \<le> 1"
  shows "(v \<le> r \<longrightarrow> v \<le> v' \<and> v' \<le> r) \<and> (r \<le> v \<longrightarrow> r \<le> v' \<and> v' \<le> v)"
proof -
  have p: "0 \<le> x \<Longrightarrow> 0 \<le> q * x \<and> q * x \<le> x" for x :: real
    using assms(2,3) by (simp add: mult_left_le_one_le)
  from p [of "r - v"] p [of "v - r"] assms(1) show ?thesis
    by (auto simp add: algebra_simps)
qed

lemma smooth_direction_None: "smooth_direction s None = Inr (advance s)"
  by (simp add: smooth_direction_def)

lemma smooth_all_absent:
  "smooth_all s (replicate n None) = Inr ((advance ^^ n) s)"
  by (induction n arbitrary: s) (simp_all add: smooth_direction_None funpow_swap1)

text \<open>
  The interpolation in exact arithmetic. A call of \<^verbatim>\<open>_smooth_direction\<close> without a detection is one interpolation
  step, and such a step does not touch the raw direction. Each step multiplies the error
  \<open>raw_dx - dx\<close> by exactly \<open>1 - smoothing_factor\<close>, so \<open>n\<close> steps multiply it by the
  \<open>n\<close>-th power (the same holds for the vertical component). With a factor between 0 and
  1 the value stays between where it started and the raw value: it never overshoots. With
  the factor 0.20, \<open>dx = 0\<close> and \<open>raw_dx = 1\<close>, three steps give 0.2, 0.36 and 0.488 (exactly,
  hence within the tolerance \<open>1e-9\<close>).
\<close>

lemma advance_geometric_exact:
  "smooth_all s (replicate n None) = Inr ((advance ^^ n) s) \<and>
   raw_dx ((advance ^^ n) s) = raw_dx s \<and>
   raw_dx s - dx (advance s) = (1 - smoothing_factor s) * (raw_dx s - dx s) \<and>
   raw_dx s - dx ((advance ^^ n) s) = (1 - smoothing_factor s) ^ n * (raw_dx s - dx s) \<and>
   raw_dy s - dy ((advance ^^ n) s) = (1 - smoothing_factor s) ^ n * (raw_dy s - dy s) \<and>
   (0 \<le> smoothing_factor s \<and> smoothing_factor s \<le> 1 \<longrightarrow>
      (dx s \<le> raw_dx s \<longrightarrow>
         dx s \<le> dx ((advance ^^ n) s) \<and> dx ((advance ^^ n) s) \<le> raw_dx s) \<and>
      (raw_dx s \<le> dx s \<longrightarrow>
         raw_dx s \<le> dx ((advance ^^ n) s) \<and> dx ((advance ^^ n) s) \<le> dx s)) \<and>
   (smoothing_factor s = 0.20 \<and> dx s = 0 \<and> raw_dx s = 1 \<longrightarrow>
      dx (advance s) = 0.2 \<and> dx (advance (advance s)) = 0.36 \<and>
      dx (advance (advance (advance s))) = 0.488 \<and>
      \<bar>dx (advance s) - 0.2\<bar> \<le> 1 / 10 ^ 9 \<and>
      \<bar>dx (advance (advance s)) - 0.36\<bar> \<le> 1 / 10 ^ 9 \<and>
      \<bar>dx (advance (advance (advance s))) - 0.488\<bar> \<le> 1 / 10 ^ 9)"
proof -
  have between: "0 \<le> smoothing_factor s \<and> smoothing_factor s \<le> 1 \<longrightarrow>
      (dx s \<le> raw_dx s \<longrightarrow>
         dx s \<le> dx ((advance ^^ n) s) \<and> dx ((advance ^^ n) s) \<le> raw_dx s) \<and>
      (raw_dx s \<le> dx s \<longrightarrow>
         raw_dx s \<le> dx ((advance ^^ n) s) \<and> dx ((advance ^^ n) s) \<le> dx s)"
  proof
    assume a: "0 \<le> smoothing_factor s \<and> smoothing_factor s \<le> 1"
    then have "0 \<le> (1 - smoothing_factor s) ^ n" "(1 - smoothing_factor s) ^ n \<le> 1"
      by (simp_all add: power_le_one)
    from shrink_between [OF advance_funpow_error_x this]
    show "(dx s \<le> raw_dx s \<longrightarrow>
         dx s \<le> dx ((advance ^^ n) s) \<and> dx ((advance ^^ n) s) \<le> raw_dx s) \<and>
      (raw_dx s \<le> dx s \<longrightarrow>
         raw_dx s \<le> dx ((advance ^^ n) s) \<and> dx ((advance ^^ n) s) \<le> dx s)" .
  qed
  have concrete: "smoothing_factor s = 0.20 \<and> dx s = 0 \<and> raw_dx s = 1 \<longrightarrow>
      dx (advance s) = 0.2 \<and> dx (advance (advance s)) = 0.36 \<and>
      dx (advance (advance (advance s))) = 0.488 \<and>
      \<bar>dx (advance s) - 0.2\<bar> \<le> 1 / 10 ^ 9 \<and>
      \<bar>dx (advance (advance s)) - 0.36\<bar> \<le> 1 / 10 ^ 9 \<and>
      \<bar>dx (advance (advance (advance s))) - 0.488\<bar> \<le> 1 / 10 ^ 9"
  proof (intro impI, elim conjE)
    assume sf: "smoothing_factor s = 0.20" and d: "dx s = 0" and r: "raw_dx s = 1"
    have e: "dx (advance s) = 0.2" "dx (advance (advance s)) = 0.36"
      "dx (advance (advance (advance s))) = 0.488"
      by (simp_all add: advance_fields sf d r)
    show "dx (advance s) = 0.2 \<and> dx (advance (advance s)) = 0.36 \<and>
      dx (advance (advance (advance s))) = 0.488 \<and>
      \<bar>dx (advance s) - 0.2\<bar> \<le> 1 / 10 ^ 9 \<and>
      \<bar>dx (advance (advance s)) - 0.36\<bar> \<le> 1 / 10 ^ 9 \<and>
      \<bar>dx (advance (advance (advance s))) - 0.488\<bar> \<le> 1 / 10 ^ 9"
      unfolding e by simp
  qed
  with concrete between show ?thesis
    using smooth_all_absent [of s n] advance_funpow_fixed [of n s] advance_error_x [of s]
      advance_funpow_error_x [of s n] advance_funpow_error_y [of s n]
    by blast
qed

section \<open>The weighted average\<close>

lemma length_weights_of: "length (weights_of n) = n"
  by (simp add: weights_of_def normalize_def np_exp_def linspace_def)

lemma sum_list_np_exp_linspace:
  "sum_list (np_exp (linspace 0 1 n)) = (\<Sum>j<n. exp (real j / real (n - 1)))"
  by (simp add: np_exp_def linspace_def sum_list_sum_nth atLeast0LessThan)

lemma exp_sum_pos: "0 < n \<Longrightarrow> 0 < (\<Sum>j<n. exp (real j / real (n - 1)))"
  by (rule sum_pos) auto

lemma nth_weights_of: "i < n \<Longrightarrow> weights_of n ! i = spec_weight n i"
  by (simp add: weights_of_def normalize_def sum_list_np_exp_linspace spec_weight_def)
     (simp add: np_exp_def linspace_def)

lemma spec_weight_pos: "i < n \<Longrightarrow> 0 < spec_weight n i"
  unfolding spec_weight_def by (intro divide_pos_pos exp_gt_zero exp_sum_pos) simp

lemma spec_weight_sum: "0 < n \<Longrightarrow> (\<Sum>i<n. spec_weight n i) = 1"
  using exp_sum_pos [of n]
  by (simp add: spec_weight_def sum_divide_distrib [symmetric])

lemma sum_list_weights_of: "0 < n \<Longrightarrow> sum_list (weights_of n) = 1"
  using spec_weight_sum [of n]
  by (simp add: sum_list_sum_nth length_weights_of nth_weights_of atLeast0LessThan)

lemma sum_list_map2_nth:
  fixes xs ws :: "real list"
  shows "length xs = length ws \<Longrightarrow>
   sum_list (map2 (\<lambda>x y. x * y) xs ws) = (\<Sum>i<length xs. ws ! i * xs ! i)"
proof -
  assume "length xs = length ws"
  then have "sum_list (map2 (\<lambda>x y. x * y) xs ws) = (\<Sum>i<length xs. xs ! i * ws ! i)"
    by (simp add: sum_list_sum_nth atLeast0LessThan)
  also have "\<dots> = (\<Sum>i<length xs. ws ! i * xs ! i)"
    by (rule sum.cong) (simp_all add: mult.commute)
  finally show ?thesis .
qed

lemma np_average_weights_of:
  "0 < n \<Longrightarrow> length xs = n \<Longrightarrow>
   np_average xs (weights_of n) = Inr (\<Sum>i<n. spec_weight n i * xs ! i)"
  by (simp add: np_average_def length_weights_of sum_list_weights_of sum_list_map2_nth
      nth_weights_of)

lemma convex_upper:
  fixes w :: "nat \<Rightarrow> real"
  assumes "\<And>i. i < n \<Longrightarrow> 0 \<le> w i" "(\<Sum>i<n. w i) = 1" "\<And>i. i < n \<Longrightarrow> x i \<le> M"
  shows "(\<Sum>i<n. w i * x i) \<le> M"
proof -
  have "(\<Sum>i<n. w i * x i) \<le> (\<Sum>i<n. w i * M)"
    by (rule sum_mono) (simp add: assms mult_left_mono)
  also have "\<dots> = M" by (simp add: sum_distrib_right [symmetric] assms)
  finally show ?thesis .
qed

lemma convex_lower:
  fixes w :: "nat \<Rightarrow> real"
  assumes "\<And>i. i < n \<Longrightarrow> 0 \<le> w i" "(\<Sum>i<n. w i) = 1" "\<And>i. i < n \<Longrightarrow> m \<le> x i"
  shows "m \<le> (\<Sum>i<n. w i * x i)"
proof -
  have "(\<Sum>i<n. w i * m) \<le> (\<Sum>i<n. w i * x i)"
    by (rule sum_mono) (simp add: assms mult_left_mono)
  moreover have "(\<Sum>i<n. w i * m) = m" by (simp add: sum_distrib_right [symmetric] assms)
  ultimately show ?thesis by simp
qed

lemma weighted_bounds:
  assumes "0 < n" "length xs = n"
  shows "Min (set xs) \<le> (\<Sum>i<n. spec_weight n i * xs ! i)"
    and "(\<Sum>i<n. spec_weight n i * xs ! i) \<le> Max (set xs)"
proof -
  have ne: "xs \<noteq> []" using assms by auto
  show "Min (set xs) \<le> (\<Sum>i<n. spec_weight n i * xs ! i)"
    using assms
    by (intro convex_lower spec_weight_sum less_imp_le [OF spec_weight_pos] Min_le) auto
  show "(\<Sum>i<n. spec_weight n i * xs ! i) \<le> Max (set xs)"
    using assms
    by (intro convex_upper spec_weight_sum less_imp_le [OF spec_weight_pos] Max_ge) auto
qed

lemma update_raw_few: "len (dx_history s) < 5 \<Longrightarrow> update_raw s = Inr s"
  by (simp add: update_raw_def)

lemma update_raw_enough:
  assumes "5 \<le> len (dx_history s)" "len (dy_history s) = len (dx_history s)"
  shows "update_raw s =
    Inr (s\<lparr>raw_dx := \<Sum>i<len (dx_history s). spec_weight (len (dx_history s)) i * items (dx_history s) ! i,
           raw_dy := \<Sum>i<len (dx_history s). spec_weight (len (dx_history s)) i * items (dy_history s) ! i\<rparr>)"
proof -
  let ?n = "len (dx_history s)"
  have n: "0 < ?n" using assms by simp
  have a: "np_average (items (dx_history s)) (weights_of ?n) = Inr (\<Sum>i<?n. spec_weight ?n i * items (dx_history s) ! i)"
    using n by (intro np_average_weights_of) (simp_all add: len_def)
  have b: "np_average (items (dy_history s)) (weights_of ?n) = Inr (\<Sum>i<?n. spec_weight ?n i * items (dy_history s) ! i)"
    using n assms(2) by (intro np_average_weights_of) (simp_all add: len_def)
  show ?thesis
    using assms(1) a b by (simp add: update_raw_def weights_of_def [symmetric])
qed

text \<open>
  The weighted average in exact arithmetic. With fewer than five samples in the history, lines 95 to 101 assign nothing:
  the state, and so the raw direction, is as before. With \<open>n \<ge> 5\<close> samples (the two
  histories being equally long) no exception is raised and the raw direction becomes the
  pair of sums of \<open>w i * sample i\<close> over the two histories, where \<open>w i\<close> is
  \<open>exp (i / (n - 1))\<close> divided by the sum of these numbers, position 0 being the oldest
  sample. The weights are positive and sum to 1, and each average lies between the least
  and the greatest sample of its history.
\<close>

lemma weighted_average_step_exact:
  "(len (dx_history s) < 5 \<longrightarrow> update_raw s = Inr s) \<and>
   (5 \<le> len (dx_history s) \<and> len (dy_history s) = len (dx_history s) \<longrightarrow>
      update_raw s =
        Inr (s\<lparr>raw_dx := spec_weighted_average (items (dx_history s)),
               raw_dy := spec_weighted_average (items (dy_history s))\<rparr>) \<and>
      (\<Sum>i<len (dx_history s). spec_weight (len (dx_history s)) i) = 1 \<and>
      (\<forall>i<len (dx_history s). 0 < spec_weight (len (dx_history s)) i) \<and>
      Min (set (items (dx_history s))) \<le> spec_weighted_average (items (dx_history s)) \<and>
      spec_weighted_average (items (dx_history s)) \<le> Max (set (items (dx_history s))) \<and>
      Min (set (items (dy_history s))) \<le> spec_weighted_average (items (dy_history s)) \<and>
      spec_weighted_average (items (dy_history s)) \<le> Max (set (items (dy_history s))))"
proof (intro conjI impI)
  assume "len (dx_history s) < 5"
  then show "update_raw s = Inr s" by (rule update_raw_few)
next
  assume a: "5 \<le> len (dx_history s) \<and> len (dy_history s) = len (dx_history s)"
  then have n: "0 < len (dx_history s)" by simp
  have lx: "length (items (dx_history s)) = len (dx_history s)"
    and ly: "length (items (dy_history s)) = len (dx_history s)"
    using a by (simp_all add: len_def)
  show "update_raw s =
        Inr (s\<lparr>raw_dx := spec_weighted_average (items (dx_history s)),
               raw_dy := spec_weighted_average (items (dy_history s))\<rparr>)"
    using a update_raw_enough [of s] by (simp add: spec_weighted_average_def lx ly)
  show "(\<Sum>i<len (dx_history s). spec_weight (len (dx_history s)) i) = 1"
    using n by (rule spec_weight_sum)
  show "\<forall>i<len (dx_history s). 0 < spec_weight (len (dx_history s)) i"
    by (simp add: spec_weight_pos)
  show "Min (set (items (dx_history s))) \<le> spec_weighted_average (items (dx_history s))"
    using weighted_bounds(1) [OF n lx] by (simp add: spec_weighted_average_def lx)
  show "spec_weighted_average (items (dx_history s)) \<le> Max (set (items (dx_history s)))"
    using weighted_bounds(2) [OF n lx] by (simp add: spec_weighted_average_def lx)
  show "Min (set (items (dy_history s))) \<le> spec_weighted_average (items (dy_history s))"
    using weighted_bounds(1) [OF n ly] by (simp add: spec_weighted_average_def ly)
  show "spec_weighted_average (items (dy_history s)) \<le> Max (set (items (dy_history s)))"
    using weighted_bounds(2) [OF n ly] by (simp add: spec_weighted_average_def ly)
qed

section \<open>The histories\<close>

lemma deque_append_simps:
  "maxlen (deque_append d x) = maxlen d"
  "items (deque_append d x) = (if maxlen d < Suc (len d) then tl (items d @ [x]) else items d @ [x])"
  "len (deque_append d x) = (if maxlen d < Suc (len d) then len d else Suc (len d))"
  by (simp_all add: deque_append_def len_def Let_def)

lemma newest_snoc:
  "newest c (xs @ [x]) =
     (if c < Suc (length (newest c xs)) then tl (newest c xs @ [x]) else newest c xs @ [x])"
proof (cases "c \<le> length xs")
  case True
  then have l: "length (newest c xs) = c" by (simp add: newest_def)
  show ?thesis
  proof (cases "c = 0")
    case True
    then show ?thesis by (simp add: newest_def)
  next
    case False
    with True have "length xs - c < length xs" by simp
    then have "tl (drop (length xs - c) xs @ [x]) = drop (Suc (length xs - c)) xs @ [x]"
      by (simp add: tl_drop drop_Suc tl_append2)
    with True l \<open>c \<noteq> 0\<close> show ?thesis by (simp add: newest_def Suc_diff_le)
  qed
next
  case False
  then show ?thesis by (simp add: newest_def)
qed

lemma items_deque_append_newest:
  "items d = newest (maxlen d) ps \<Longrightarrow>
   items (deque_append d x) = newest (maxlen d) (ps @ [x])"
  by (simp add: deque_append_simps newest_snoc len_def)

lemma length_newest: "length (newest c xs) \<le> c"
  by (simp add: newest_def)

lemma append_history_fields:
  "dx_history (append_history s x y) = deque_append (dx_history s) x"
  "dy_history (append_history s x y) = deque_append (dy_history s) y"
  "dx (append_history s x y) = dx s"
  "dy (append_history s x y) = dy s"
  "raw_dx (append_history s x y) = raw_dx s"
  "raw_dy (append_history s x y) = raw_dy s"
  "smoothing_factor (append_history s x y) = smoothing_factor s"
  "history_size (append_history s x y) = history_size s"
  "running (append_history s x y) = running s"
  "cap_released (append_history s x y) = cap_released s"
  by (simp_all add: append_history_def)

lemma parallel_append_history: "parallel s \<Longrightarrow> parallel (append_history s x y)"
  by (simp add: parallel_def append_history_fields deque_append_simps)

lemma update_raw_parallel:
  assumes "parallel s"
  shows "update_raw s =
     Inr (if 5 \<le> len (dx_history s)
          then s\<lparr>raw_dx := spec_weighted_average (items (dx_history s)),
                 raw_dy := spec_weighted_average (items (dy_history s))\<rparr>
          else s)"
proof (cases "5 \<le> len (dx_history s)")
  case True
  moreover from assms have "len (dy_history s) = len (dx_history s)"
    by (simp add: parallel_def)
  ultimately show ?thesis
    using update_raw_enough [of s]
    by (simp add: spec_weighted_average_def) (simp add: len_def)
next
  case False
  then show ?thesis by (simp add: update_raw_few)
qed

lemma smooth_direction_Some:
  "parallel s \<Longrightarrow>
   smooth_direction s (Some (x, y)) = Inr (advance (raw_updated (append_history s x y)))"
  by (simp add: smooth_direction_def update_raw_parallel parallel_append_history raw_updated_def)

lemma raw_updated_fields:
  "dx_history (raw_updated s) = dx_history s"
  "dy_history (raw_updated s) = dy_history s"
  "dx (raw_updated s) = dx s"
  "dy (raw_updated s) = dy s"
  "smoothing_factor (raw_updated s) = smoothing_factor s"
  "history_size (raw_updated s) = history_size s"
  "running (raw_updated s) = running s"
  "cap_released (raw_updated s) = cap_released s"
  by (simp_all add: raw_updated_def)

lemma raw_updated_raw:
  "raw_dx (raw_updated s) =
     (if 5 \<le> len (dx_history s) then spec_weighted_average (items (dx_history s)) else raw_dx s)"
  "raw_dy (raw_updated s) =
     (if 5 \<le> len (dx_history s) then spec_weighted_average (items (dy_history s)) else raw_dy s)"
  by (simp_all add: raw_updated_def)

lemma parallel_raw_updated: "parallel (raw_updated s) = parallel s"
  by (simp add: parallel_def raw_updated_fields)

lemma parallel_advance: "parallel (advance s) = parallel s"
  by (simp add: parallel_def advance_fields)

lemma smooth_direction_total:
  assumes "parallel s"
  shows "\<exists>s'. smooth_direction s t = Inr s' \<and> parallel s' \<and>
           smoothing_factor s' = smoothing_factor s \<and> running s' = running s \<and>
           cap_released s' = cap_released s \<and> history_size s' = history_size s \<and>
           maxlen (dx_history s') = maxlen (dx_history s)"
proof (cases t)
  case None
  then show ?thesis using assms
    by (simp add: smooth_direction_None parallel_advance advance_fields)
next
  case (Some p)
  obtain x y where "p = (x, y)" by (cases p)
  with Some assms show ?thesis
    by (simp add: smooth_direction_Some parallel_advance parallel_raw_updated
        parallel_append_history advance_fields raw_updated_fields append_history_fields
        deque_append_simps)
qed

lemma init_fields:
  "history_size init_tracker = 20"
  "dx_history init_tracker = new_deque 20"
  "dy_history init_tracker = new_deque 20"
  "dx init_tracker = 0"
  "dy init_tracker = 0"
  "raw_dx init_tracker = 0"
  "raw_dy init_tracker = 0"
  "smoothing_factor init_tracker = 1 / 5"
  "running init_tracker = True"
  "cap_released init_tracker = 0"
  by (simp_all add: init_tracker_def)

lemma new_deque_simps:
  "maxlen (new_deque n) = n" "items (new_deque n) = []" "len (new_deque n) = 0"
  by (simp_all add: new_deque_def len_def)

lemma parallel_init: "parallel init_tracker"
  by (simp add: parallel_def init_fields new_deque_simps)

lemma smooth_all_histories:
  assumes "parallel s" "maxlen (dx_history s) = c"
    "items (dx_history s) = newest c px" "items (dy_history s) = newest c py"
  shows "\<exists>s'. smooth_all s ts = Inr s' \<and> parallel s' \<and> maxlen (dx_history s') = c \<and>
           items (dx_history s') = newest c (px @ map fst (detections ts)) \<and>
           items (dy_history s') = newest c (py @ map snd (detections ts))"
  using assms
proof (induction ts arbitrary: s px py rule: detections.induct)
  case 1
  then show ?case by simp
next
  case (2 ts)
  let ?s = "advance s"
  have "parallel ?s" "maxlen (dx_history ?s) = c"
    "items (dx_history ?s) = newest c px" "items (dy_history ?s) = newest c py"
    using "2.prems" by (simp_all add: parallel_advance advance_fields)
  from "2.IH" [OF this] show ?case
    by (simp add: smooth_direction_None)
next
  case (3 p ts)
  obtain x y where p: "p = (x, y)" by (cases p)
  let ?s = "advance (raw_updated (append_history s x y))"
  have my: "maxlen (dy_history s) = c"
    using "3.prems" by (simp add: parallel_def)
  have "parallel ?s"
    using "3.prems"(1)
    by (simp add: parallel_advance parallel_raw_updated parallel_append_history)
  moreover have "maxlen (dx_history ?s) = c"
    using "3.prems"(2)
    by (simp add: advance_fields raw_updated_fields append_history_fields deque_append_simps)
  moreover have "items (dx_history ?s) = newest c (px @ [x])"
    using "3.prems"(2,3) items_deque_append_newest [of "dx_history s" px x]
    by (simp add: advance_fields raw_updated_fields append_history_fields)
  moreover have "items (dy_history ?s) = newest c (py @ [y])"
    using my "3.prems"(4) items_deque_append_newest [of "dy_history s" py y]
    by (simp add: advance_fields raw_updated_fields append_history_fields)
  ultimately show ?case
    using "3.IH" [of ?s "px @ [x]" "py @ [y]"] "3.prems"(1)
    by (simp add: smooth_direction_Some p)
qed

lemma smooth_all_init_histories:
  "\<exists>s. smooth_all init_tracker ts = Inr s \<and> parallel s \<and> maxlen (dx_history s) = 20 \<and>
       items (dx_history s) = newest 20 (map fst (detections ts)) \<and>
       items (dy_history s) = newest 20 (map snd (detections ts))"
  using smooth_all_histories [of init_tracker 20 "[]" "[]" ts]
  by (simp add: parallel_init init_fields new_deque_simps newest_def)

lemma deque_append_full:
  assumes "len d \<le> maxlen d" "0 < maxlen d"
  shows "items (deque_append d x) =
           (if len d = maxlen d then tl (items d) @ [x] else items d @ [x])"
proof (cases "len d = maxlen d")
  case True
  with assms(2) have "items d \<noteq> []" by (auto simp add: len_def)
  with True show ?thesis by (simp add: deque_append_simps)
next
  case False
  with assms(1) show ?thesis by (simp add: deque_append_simps)
qed

lemma detections_append: "detections (ts @ us) = detections ts @ detections us"
  by (induction ts rule: detections.induct) simp_all

lemma detections_map_Some: "detections (map Some ps) = ps"
  by (induction ps) simp_all

text \<open>
  Claim C6. After any sequence of calls of \<^verbatim>\<open>_smooth_direction\<close> on a new tracker, each
  history holds exactly the last 20 samples that were present, oldest first (all of them
  while there are fewer than 20), so it never holds more than 20 values and never a value
  of a call without detection. A further call with a sample appends it, after dropping
  the oldest value when the history already holds 20; a further call without a sample
  leaves both histories as they are.
\<close>

theorem history_bounded_fifo:
  "\<exists>s. smooth_all init_tracker ts = Inr s \<and>
       items (dx_history s) = newest 20 (map fst (detections ts)) \<and>
       items (dy_history s) = newest 20 (map snd (detections ts)) \<and>
       len (dx_history s) \<le> 20 \<and> len (dy_history s) \<le> 20 \<and>
       (\<forall>x y. \<exists>s'. smooth_direction s (Some (x, y)) = Inr s' \<and>
          items (dx_history s') =
            (if len (dx_history s) = 20 then tl (items (dx_history s)) @ [x]
             else items (dx_history s) @ [x]) \<and>
          items (dy_history s') =
            (if len (dy_history s) = 20 then tl (items (dy_history s)) @ [y]
             else items (dy_history s) @ [y])) \<and>
       (\<exists>s'. smooth_direction s None = Inr s' \<and>
          dx_history s' = dx_history s \<and> dy_history s' = dy_history s)"
proof -
  obtain s where s: "smooth_all init_tracker ts = Inr s" "parallel s"
    "maxlen (dx_history s) = 20"
    "items (dx_history s) = newest 20 (map fst (detections ts))"
    "items (dy_history s) = newest 20 (map snd (detections ts))"
    using smooth_all_init_histories [of ts] by blast
  have my: "maxlen (dy_history s) = 20"
    using s(2,3) by (simp add: parallel_def)
  have lx: "len (dx_history s) \<le> 20" and ly: "len (dy_history s) \<le> 20"
    using s(4,5) by (simp_all add: len_def length_newest)
  have push: "\<exists>s'. smooth_direction s (Some (x, y)) = Inr s' \<and>
          items (dx_history s') =
            (if len (dx_history s) = 20 then tl (items (dx_history s)) @ [x]
             else items (dx_history s) @ [x]) \<and>
          items (dy_history s') =
            (if len (dy_history s) = 20 then tl (items (dy_history s)) @ [y]
             else items (dy_history s) @ [y])" for x y
    using s(2,3) my lx ly
      deque_append_full [of "dx_history s" x] deque_append_full [of "dy_history s" y]
    by (simp add: smooth_direction_Some advance_fields raw_updated_fields
        append_history_fields)
  have skip: "\<exists>s'. smooth_direction s None = Inr s' \<and>
          dx_history s' = dx_history s \<and> dy_history s' = dy_history s"
    by (simp add: smooth_direction_None advance_fields)
  from s(1,4,5) lx ly push skip show ?thesis by blast
qed

theorem history_bounded_fifo_witness:
  "\<exists>s. smooth_all init_tracker
         (map Some (map (\<lambda>k. (real k, - real k)) [2..<24]) @ [None]) = Inr s \<and>
       items (dx_history s) = map real [4..<24] \<and>
       items (dy_history s) = map (\<lambda>k. - real k) [4..<24] \<and>
       len (dx_history s) = 20"
proof -
  let ?ts = "map Some (map (\<lambda>k. (real k, - real k)) [2..<24]) @ [None]"
  obtain s where s: "smooth_all init_tracker ?ts = Inr s"
    "items (dx_history s) = newest 20 (map fst (detections ?ts))"
    "items (dy_history s) = newest 20 (map snd (detections ?ts))"
    using history_bounded_fifo [of ?ts] by blast
  have x: "items (dx_history s) = map real [4..<24]"
    using s(2) by (simp add: newest_def detections_append detections_map_Some)
  have y: "items (dy_history s) = map (\<lambda>k. - real k) [4..<24]"
    using s(3) by (simp add: newest_def detections_append detections_map_Some)
  have "len (dx_history s) = 20"
    by (simp add: len_def x)
  with s(1) x y show ?thesis by blast
qed

section \<open>The bias towards recent samples\<close>

lemma spec_weighted_average_five:
  "spec_weighted_average [a, b, c, d, e] =
     (a + exp (1 / 4) * b + exp (1 / 2) * c + exp (3 / 4) * d + exp 1 * e) /
     (1 + exp (1 / 4) + exp (1 / 2) + exp (3 / 4) + exp 1)"
  by (simp add: spec_weighted_average_def spec_weight_def lessThan_Suc eval_nat_numeral)
     (simp add: add_divide_distrib ac_simps)

lemma bias_arith:
  fixes p q t u :: real
  assumes "p < t" "1 < u"
  shows "3 / 10 * (1 + p + q + t + u) <
         1 / 10 + p * (2 / 10) + q * (3 / 10) + t * (4 / 10) + u * (5 / 10)"
  using assms by (simp add: algebra_simps)

lemma five_bias:
  "3 / 10 < spec_weighted_average [1 / 10, 2 / 10, 3 / 10, 4 / 10, 5 / 10]"
proof -
  let ?E = "1 + exp (1 / 4 :: real) + exp (1 / 2) + exp (3 / 4) + exp 1"
  have pos: "0 < ?E" by (intro add_pos_pos exp_gt_zero) simp
  have m1: "exp (1 / 4 :: real) < exp (3 / 4)" by simp
  have m2: "(1 :: real) < exp 1" by simp
  have "3 / 10 * ?E <
     1 / 10 + exp (1 / 4) * (2 / 10) + exp (1 / 2) * (3 / 10) + exp (3 / 4) * (4 / 10)
       + exp 1 * (5 / 10)"
    using m1 m2 by (rule bias_arith)
  then show ?thesis
    using pos by (simp only: spec_weighted_average_five pos_less_divide_eq)
qed

lemma smooth_five:
  "smooth_all init_tracker [Some (a, a'), Some (b, b'), Some (c, c'), Some (d, d'), Some (e, e')]
     = Inr s \<Longrightarrow>
   raw_dx s = spec_weighted_average [a, b, c, d, e] \<and>
   raw_dy s = spec_weighted_average [a', b', c', d', e']"
  by (auto simp add: smooth_direction_Some parallel_init parallel_advance parallel_raw_updated
      parallel_append_history advance_fields raw_updated_fields raw_updated_raw
      append_history_fields deque_append_simps init_fields new_deque_simps)

text \<open>
  Claim C9. Five calls on a new tracker with the samples 0.1, 0.2, 0.3, 0.4, 0.5 (in the
  horizontal component, whatever the vertical one is, and likewise in the vertical
  component) fill the history with these five values; the fifth call computes their
  weighted average, and it is strictly greater than their mean 0.3.
\<close>

theorem weighting_bias:
  "(\<exists>s. smooth_all init_tracker
          [Some (0.1, y1), Some (0.2, y2), Some (0.3, y3), Some (0.4, y4), Some (0.5, y5)] = Inr s \<and>
        items (dx_history s) = [0.1, 0.2, 0.3, 0.4, 0.5] \<and>
        raw_dx s = spec_weighted_average [0.1, 0.2, 0.3, 0.4, 0.5] \<and>
        0.3 < raw_dx s) \<and>
   (\<exists>s. smooth_all init_tracker
          [Some (x1, 0.1), Some (x2, 0.2), Some (x3, 0.3), Some (x4, 0.4), Some (x5, 0.5)] = Inr s \<and>
        items (dy_history s) = [0.1, 0.2, 0.3, 0.4, 0.5] \<and>
        raw_dy s = spec_weighted_average [0.1, 0.2, 0.3, 0.4, 0.5] \<and>
        0.3 < raw_dy s) \<and>
   sum_list [0.1, 0.2, 0.3, 0.4, 0.5 :: real] / 5 = 0.3"
proof -
  have b: "0.3 < spec_weighted_average [0.1, 0.2, 0.3, 0.4, 0.5]"
    using five_bias by simp
  let ?tx = "[Some (0.1, y1), Some (0.2, y2), Some (0.3, y3), Some (0.4, y4), Some (0.5 :: real, y5)]"
  let ?ty = "[Some (x1, 0.1), Some (x2, 0.2), Some (x3, 0.3), Some (x4, 0.4), Some (x5, 0.5 :: real)]"
  obtain s where s: "smooth_all init_tracker ?tx = Inr s"
    "items (dx_history s) = newest 20 (map fst (detections ?tx))"
    using smooth_all_init_histories [of ?tx] by blast
  obtain s' where s': "smooth_all init_tracker ?ty = Inr s'"
    "items (dy_history s') = newest 20 (map snd (detections ?ty))"
    using smooth_all_init_histories [of ?ty] by blast
  have "raw_dx s = spec_weighted_average [0.1, 0.2, 0.3, 0.4, 0.5]"
    using smooth_five [OF s(1)] by simp
  moreover have "raw_dy s' = spec_weighted_average [0.1, 0.2, 0.3, 0.4, 0.5]"
    using smooth_five [OF s'(1)] by simp
  moreover have "items (dx_history s) = [0.1, 0.2, 0.3, 0.4, 0.5]"
    using s(2) by (simp add: newest_def)
  moreover have "items (dy_history s') = [0.1, 0.2, 0.3, 0.4, 0.5]"
    using s'(2) by (simp add: newest_def)
  ultimately show ?thesis
    using b s(1) s'(1) by simp
qed

theorem weighting_bias_witness:
  "\<exists>s. smooth_all init_tracker
          [Some (0.1, 0), Some (0.2, 0), Some (0.3, 0), Some (0.4, 0), Some (0.5, 0)] = Inr s \<and>
        0.3 < raw_dx s"
  using weighting_bias [of 0 0 0 0 0 0 0 0 0 0]
  by blast

section \<open>Boundedness\<close>

lemma spec_weighted_average_abs:
  assumes "xs \<noteq> []" "\<forall>v\<in>set xs. \<bar>v\<bar> \<le> B"
  shows "\<bar>spec_weighted_average xs\<bar> \<le> B"
proof -
  let ?n = "length xs"
  have n: "0 < ?n" using assms(1) by simp
  have b: "\<And>i. i < ?n \<Longrightarrow> - B \<le> xs ! i \<and> xs ! i \<le> B"
    using assms(2) by (simp add: abs_le_iff) (metis minus_le_iff nth_mem)
  have "(\<Sum>i<?n. spec_weight ?n i * xs ! i) \<le> B"
    using n b by (intro convex_upper spec_weight_sum less_imp_le [OF spec_weight_pos]) auto
  moreover have "- B \<le> (\<Sum>i<?n. spec_weight ?n i * xs ! i)"
    using n b by (intro convex_lower spec_weight_sum less_imp_le [OF spec_weight_pos]) auto
  ultimately show ?thesis
    by (simp add: spec_weighted_average_def abs_le_iff)
qed

lemma set_items_deque_append:
  "set (items (deque_append d x)) \<subseteq> insert x (set (items d))"
proof -
  have "set (tl (items d @ [x])) \<subseteq> set (items d @ [x])"
    by (rule subsetI) (rule list.set_sel(2), auto)
  then show ?thesis
    by (auto simp add: deque_append_simps)
qed

lemma interpolate_abs:
  fixes B :: real
  assumes "\<bar>v\<bar> \<le> B" "\<bar>r\<bar> \<le> B"
  shows "\<bar>v + (r - v) * (1 / 5)\<bar> \<le> B"
  using assms by (simp add: abs_le_iff field_simps)

lemma bounded_x_advance:
  "smoothing_factor s = 1 / 5 \<Longrightarrow> bounded_x B s \<Longrightarrow> bounded_x B (advance s)"
proof -
  assume sf: "smoothing_factor s = 1 / 5" and b: "bounded_x B s"
  have "dx (advance s) = dx s + (raw_dx s - dx s) * (1 / 5)"
    by (simp only: advance_fields sf)
  moreover have "\<bar>dx s + (raw_dx s - dx s) * (1 / 5)\<bar> \<le> B"
    using b by (intro interpolate_abs) (simp_all add: bounded_x_def)
  ultimately have "\<bar>dx (advance s)\<bar> \<le> B"
    by (simp only:)
  with b show ?thesis
    by (simp add: bounded_x_def advance_fields(3,6))
qed

lemma bounded_y_advance:
  "smoothing_factor s = 1 / 5 \<Longrightarrow> bounded_y B s \<Longrightarrow> bounded_y B (advance s)"
proof -
  assume sf: "smoothing_factor s = 1 / 5" and b: "bounded_y B s"
  have "dy (advance s) = dy s + (raw_dy s - dy s) * (1 / 5)"
    by (simp only: advance_fields sf)
  moreover have "\<bar>dy s + (raw_dy s - dy s) * (1 / 5)\<bar> \<le> B"
    using b by (intro interpolate_abs) (simp_all add: bounded_y_def)
  ultimately have "\<bar>dy (advance s)\<bar> \<le> B"
    by (simp only:)
  with b show ?thesis
    by (simp add: bounded_y_def advance_fields(4,7))
qed

lemma len_pos_items: "5 \<le> len d \<Longrightarrow> items d \<noteq> []"
  by (auto simp add: len_def)

lemma bounded_x_raw_updated: "bounded_x B s \<Longrightarrow> bounded_x B (raw_updated s)"
  by (simp add: bounded_x_def raw_updated_def spec_weighted_average_abs len_pos_items)

lemma bounded_y_raw_updated:
  assumes "parallel s" "bounded_y B s"
  shows "bounded_y B (raw_updated s)"
proof (cases "5 \<le> len (dx_history s)")
  case True
  with assms(1) have "items (dy_history s) \<noteq> []"
    by (simp add: parallel_def len_pos_items)
  with assms(2) True show ?thesis
    by (simp add: bounded_y_def raw_updated_def spec_weighted_average_abs)
next
  case False
  with assms(2) show ?thesis by (simp add: raw_updated_def)
qed

lemma bounded_x_append_history:
  "bounded_x B s \<Longrightarrow> \<bar>x\<bar> \<le> B \<Longrightarrow> bounded_x B (append_history s x y)"
  using set_items_deque_append [of "dx_history s" x]
  by (auto simp add: bounded_x_def append_history_fields)

lemma bounded_y_append_history:
  "bounded_y B s \<Longrightarrow> \<bar>y\<bar> \<le> B \<Longrightarrow> bounded_y B (append_history s x y)"
  using set_items_deque_append [of "dy_history s" y]
  by (auto simp add: bounded_y_def append_history_fields)

lemma tuned_init: "tuned init_tracker"
  by (simp add: tuned_def parallel_init init_fields)

lemma tuned_step:
  assumes "tuned s"
  shows "\<exists>s'. smooth_direction s t = Inr s' \<and> tuned s' \<and> running s' = running s \<and>
           cap_released s' = cap_released s"
  using assms smooth_direction_total [of s t] by (auto simp add: tuned_def)

lemma smooth_all_bounded_x:
  assumes "tuned s" "bounded_x B s" "\<forall>p\<in>set (detections ts). \<bar>fst p\<bar> \<le> B"
  shows "\<exists>s'. smooth_all s ts = Inr s' \<and> tuned s' \<and> bounded_x B s'"
  using assms
proof (induction ts arbitrary: s rule: detections.induct)
  case 1
  then show ?case by simp
next
  case (2 ts)
  have "tuned (advance s)" "bounded_x B (advance s)"
    using "2.prems" by (simp_all add: tuned_def parallel_advance advance_fields bounded_x_advance)
  from "2.IH" [OF this] "2.prems"(3) show ?case
    by (simp add: smooth_direction_None)
next
  case (3 p ts)
  obtain x y where p: "p = (x, y)" by (cases p)
  let ?s = "advance (raw_updated (append_history s x y))"
  have par: "parallel s" and sf: "smoothing_factor s = 1 / 5"
    using "3.prems"(1) by (simp_all add: tuned_def)
  have x: "\<bar>x\<bar> \<le> B" using "3.prems"(3) p by simp
  have t: "tuned ?s"
    using par sf
    by (simp add: tuned_def parallel_advance parallel_raw_updated parallel_append_history
        advance_fields raw_updated_fields append_history_fields)
  have "bounded_x B (raw_updated (append_history s x y))"
    using "3.prems"(2) x by (intro bounded_x_raw_updated bounded_x_append_history)
  then have b: "bounded_x B ?s"
    using sf by (intro bounded_x_advance) (simp_all add: raw_updated_fields append_history_fields)
  from "3.IH" [OF t b] "3.prems"(3) par show ?case
    by (simp add: smooth_direction_Some p)
qed

lemma smooth_all_bounded_y:
  assumes "tuned s" "bounded_y B s" "\<forall>p\<in>set (detections ts). \<bar>snd p\<bar> \<le> B"
  shows "\<exists>s'. smooth_all s ts = Inr s' \<and> tuned s' \<and> bounded_y B s'"
  using assms
proof (induction ts arbitrary: s rule: detections.induct)
  case 1
  then show ?case by simp
next
  case (2 ts)
  have "tuned (advance s)" "bounded_y B (advance s)"
    using "2.prems" by (simp_all add: tuned_def parallel_advance advance_fields bounded_y_advance)
  from "2.IH" [OF this] "2.prems"(3) show ?case
    by (simp add: smooth_direction_None)
next
  case (3 p ts)
  obtain x y where p: "p = (x, y)" by (cases p)
  let ?s = "advance (raw_updated (append_history s x y))"
  have par: "parallel s" and sf: "smoothing_factor s = 1 / 5"
    using "3.prems"(1) by (simp_all add: tuned_def)
  have y: "\<bar>y\<bar> \<le> B" using "3.prems"(3) p by simp
  have t: "tuned ?s"
    using par sf
    by (simp add: tuned_def parallel_advance parallel_raw_updated parallel_append_history
        advance_fields raw_updated_fields append_history_fields)
  have "bounded_y B (raw_updated (append_history s x y))"
    using "3.prems"(2) y par
    by (intro bounded_y_raw_updated bounded_y_append_history parallel_append_history)
  then have b: "bounded_y B ?s"
    using sf by (intro bounded_y_advance) (simp_all add: raw_updated_fields append_history_fields)
  from "3.IH" [OF t b] "3.prems"(3) par show ?case
    by (simp add: smooth_direction_Some p)
qed

text \<open>
  Boundedness in exact arithmetic. Let \<open>B \<ge> 0\<close>. If the horizontal component of every sample that is present
  in a sequence of calls of \<^verbatim>\<open>_smooth_direction\<close> on a new tracker lies in \<open>[-B, B]\<close>,
  then all calls return and afterwards \<open>raw_dx\<close> and \<open>dx\<close> lie in \<open>[-B, B]\<close>; the same
  holds for the vertical components and \<open>raw_dy\<close>, \<open>dy\<close>.
\<close>

lemma smoothing_bounded_exact:
  assumes "0 \<le> B"
  shows "((\<forall>p\<in>set (detections ts). \<bar>fst p\<bar> \<le> B) \<longrightarrow>
            (\<exists>s. smooth_all init_tracker ts = Inr s \<and> \<bar>raw_dx s\<bar> \<le> B \<and> \<bar>dx s\<bar> \<le> B)) \<and>
         ((\<forall>p\<in>set (detections ts). \<bar>snd p\<bar> \<le> B) \<longrightarrow>
            (\<exists>s. smooth_all init_tracker ts = Inr s \<and> \<bar>raw_dy s\<bar> \<le> B \<and> \<bar>dy s\<bar> \<le> B))"
proof -
  have bx: "bounded_x B init_tracker" and "bounded_y B init_tracker"
    using assms by (simp_all add: bounded_x_def bounded_y_def init_fields new_deque_simps)
  then show ?thesis
    using smooth_all_bounded_x [OF tuned_init bx, of ts]
      smooth_all_bounded_y [OF tuned_init \<open>bounded_y B init_tracker\<close>, of ts]
    by (auto simp add: bounded_x_def bounded_y_def)
qed

section \<open>The tracking loop and the shutdown\<close>

lemma cleanup_fields:
  "running (cleanup s) = False"
  "cap_released (cleanup s) = cap_released s + 1"
  "dx_history (cleanup s) = dx_history s"
  "dy_history (cleanup s) = dy_history s"
  "dx (cleanup s) = dx s"
  "dy (cleanup s) = dy s"
  "raw_dx (cleanup s) = raw_dx s"
  "raw_dy (cleanup s) = raw_dy s"
  "smoothing_factor (cleanup s) = smoothing_factor s"
  "history_size (cleanup s) = history_size s"
  by (simp_all add: cleanup_def)

lemma tuned_cleanup: "tuned (cleanup s) = tuned s"
  by (simp add: tuned_def parallel_def cleanup_fields)

lemma tracking_tick_total:
  assumes "tuned s"
  shows "\<exists>s'. tracking_tick s inp = Inr s' \<and> tuned s' \<and> running s' = running s \<and>
           cap_released s' = cap_released s"
proof (cases inp)
  case (Pair ret detected)
  then show ?thesis
    using assms tuned_step [of s detected] by (cases ret) (simp_all add: tracking_tick_def)
qed

lemma loop_step_total:
  assumes "tuned s"
  shows "\<exists>pc' s'. loop_step (pc, s) inp = Inr (pc', s') \<and> tuned s' \<and>
           running s' = running s \<and> cap_released s' = cap_released s"
proof (cases pc)
  case AtWhile
  with assms show ?thesis by simp
next
  case InBody
  with tracking_tick_total [OF assms, of inp] show ?thesis by auto
next
  case Exited
  with assms show ?thesis by simp
qed

lemma run_total:
  assumes "tuned s"
  shows "\<exists>pc' s'. run (pc, s) es = Inr (pc', s') \<and> tuned s' \<and>
           cap_released s' = cap_released s + cleanup_calls es"
  using assms
proof (induction es arbitrary: pc s)
  case Nil
  then show ?case by (simp add: cleanup_calls_def)
next
  case (Cons e es)
  show ?case
  proof (cases e)
    case (Loop inp)
    obtain pc1 s1 where 1: "loop_step (pc, s) inp = Inr (pc1, s1)" "tuned s1"
      "cap_released s1 = cap_released s"
      using loop_step_total [OF Cons.prems, of pc inp] by blast
    from Cons.IH [OF 1(2), of pc1] 1(1,3) Loop show ?thesis
      by (simp add: cleanup_calls_def)
  next
    case Cleanup
    have "tuned (cleanup s)" using Cons.prems by (simp add: tuned_cleanup)
    from Cons.IH [OF this, of pc] Cleanup show ?thesis
      by (simp add: cleanup_calls_def cleanup_fields)
  qed
qed

lemma run_append:
  "run sys (es @ es') = (case run sys es of Inl e \<Rightarrow> Inl e | Inr sys' \<Rightarrow> run sys' es')"
proof (induction es arbitrary: sys)
  case Nil
  then show ?case by simp
next
  case (Cons e es)
  then show ?case by (cases e) (simp_all split: sum.splits)
qed

lemma run_init:
  "\<exists>pc s. run init_system es = Inr (pc, s) \<and> tuned s \<and> cap_released s = cleanup_calls es"
  using run_total [OF tuned_init, of AtWhile es] by (simp add: init_system_def init_fields)

text \<open>
  Claim C7. A tick whose capture read fails returns the state it was given, without an
  exception: histories, raw and smoothed direction are untouched. The thread is back at
  the test of the loop, and enters the next tick when the flag \<open>running\<close> is still set.
  This holds in any state, and in particular wherever a schedule of the running system
  has brought the thread into the body of the loop.
\<close>

theorem capture_failure_tick:
  "tracking_tick s (False, detected) = Inr s \<and>
   loop_step (InBody, s) (False, detected) = Inr (AtWhile, s) \<and>
   (running s \<longrightarrow> loop_step (AtWhile, s) inp = Inr (InBody, s)) \<and>
   (\<exists>pc s'. run init_system es = Inr (pc, s') \<and>
      (pc = InBody \<longrightarrow>
         run init_system (es @ [Loop (False, detected)]) = Inr (AtWhile, s') \<and>
         (running s' \<longrightarrow>
            run init_system (es @ [Loop (False, detected), Loop inp]) = Inr (InBody, s'))))"
proof -
  have tick: "tracking_tick t (False, detected) = Inr t" for t
    by (simp add: tracking_tick_def)
  obtain pc s' where r: "run init_system es = Inr (pc, s')"
    using run_init [of es] by blast
  have "pc = InBody \<longrightarrow>
         run init_system (es @ [Loop (False, detected)]) = Inr (AtWhile, s') \<and>
         (running s' \<longrightarrow>
            run init_system (es @ [Loop (False, detected), Loop inp]) = Inr (InBody, s'))"
    by (simp add: run_append r tick)
  with r tick [of s] show ?thesis
    by auto
qed

theorem capture_failure_tick_witness:
  "running init_tracker \<and>
   run init_system [Loop (True, None)] = Inr (InBody, init_tracker) \<and>
   run init_system [Loop (True, None), Loop (False, Some (1, 1)), Loop (True, None)] =
     Inr (InBody, init_tracker)"
  using capture_failure_tick
    [of init_tracker "Some (1, 1)" "(True, None)" "[Loop (True, None)]"]
  by (simp add: init_system_def init_tracker_def)

text \<open>
  Claim C8. In every state, a tick with a successful capture and no detection returns
  without an exception and changes only the smoothed direction: \<open>dx\<close> moves towards
  \<open>raw_dx\<close> by \<open>(raw_dx - dx) * smoothing_factor\<close> and \<open>dy\<close> towards \<open>raw_dy\<close> likewise,
  while the histories and the raw direction stay as they are. In every state the running
  system can reach, the factor is the constructor's 0.20.
\<close>

theorem absent_detection_tick:
  "tracking_tick s (True, None) =
     Inr (s\<lparr>dx := dx s + (raw_dx s - dx s) * smoothing_factor s,
            dy := dy s + (raw_dy s - dy s) * smoothing_factor s\<rparr>) \<and>
   (\<exists>pc s'. run init_system es = Inr (pc, s') \<and> smoothing_factor s' = 0.20 \<and>
      tracking_tick s' (True, None) =
        Inr (s'\<lparr>dx := dx s' + (raw_dx s' - dx s') * 0.20,
                dy := dy s' + (raw_dy s' - dy s') * 0.20\<rparr>))"
proof -
  have tick: "tracking_tick t (True, None) =
     Inr (t\<lparr>dx := dx t + (raw_dx t - dx t) * smoothing_factor t,
            dy := dy t + (raw_dy t - dy t) * smoothing_factor t\<rparr>)" for t
    by (simp add: tracking_tick_def smooth_direction_None advance_def)
  obtain pc s' where r: "run init_system es = Inr (pc, s')" "tuned s'"
    using run_init [of es] by blast
  then have f: "smoothing_factor s' = 0.20" by (simp add: tuned_def)
  have "tracking_tick s' (True, None) =
        Inr (s'\<lparr>dx := dx s' + (raw_dx s' - dx s') * 0.20,
                dy := dy s' + (raw_dy s' - dy s') * 0.20\<rparr>)"
    using tick [of s'] by (simp only: f)
  with r(1) f tick [of s] show ?thesis by blast
qed

text \<open>
  The tick is run in a state with five samples in each history, raw direction \<open>(1, -1)\<close>
  and smoothed direction \<open>(0, 1/2)\<close>: the smoothed direction becomes \<open>(0.2, 0.2)\<close> and
  nothing else changes.
\<close>

theorem absent_detection_tick_witness:
  "tracking_tick
     (init_tracker\<lparr>dx_history := \<lparr>maxlen = 20, items = [1, 1, 1, 1, 1]\<rparr>,
                   dy_history := \<lparr>maxlen = 20, items = [- 1, - 1, - 1, - 1, - 1]\<rparr>,
                   dy := 1 / 2, raw_dx := 1, raw_dy := - 1\<rparr>) (True, None) =
   Inr (init_tracker\<lparr>dx_history := \<lparr>maxlen = 20, items = [1, 1, 1, 1, 1]\<rparr>,
                   dy_history := \<lparr>maxlen = 20, items = [- 1, - 1, - 1, - 1, - 1]\<rparr>,
                   dx := 0.2, dy := 0.2, raw_dx := 1, raw_dy := - 1\<rparr>)"
  using absent_detection_tick
    [of "init_tracker\<lparr>dx_history := \<lparr>maxlen = 20, items = [1, 1, 1, 1, 1]\<rparr>,
                   dy_history := \<lparr>maxlen = 20, items = [- 1, - 1, - 1, - 1, - 1]\<rparr>,
                   dy := 1 / 2, raw_dx := 1, raw_dy := - 1\<rparr>" "[]"]
  by (simp add: init_tracker_def)

text \<open>
  Claim C2, as the code has it. After any schedule, a call of \<^verbatim>\<open>cleanup\<close> clears the flag
  and releases the capture once (the number of releases is the number of calls), and it
  returns with the background thread where it was: it does not wait for the loop. From
  then on the thread leaves the loop at its next test of the flag, after completing the
  tick it was in, if it was in one.
\<close>

theorem cleanup_releases_without_join:
  "\<exists>pc s. run init_system es = Inr (pc, s) \<and> cap_released s = cleanup_calls es \<and>
     run init_system (es @ [Cleanup]) = Inr (pc, cleanup s) \<and>
     \<not> running (cleanup s) \<and> cap_released (cleanup s) = cleanup_calls es + 1 \<and>
     (case pc of
        AtWhile \<Rightarrow> run init_system (es @ [Cleanup, Loop inp]) = Inr (Exited, cleanup s)
      | InBody \<Rightarrow>
          (\<exists>s'. tracking_tick (cleanup s) inp = Inr s' \<and>
             run init_system (es @ [Cleanup, Loop inp, Loop inp']) = Inr (Exited, s') \<and>
             cap_released s' = cleanup_calls es + 1)
      | Exited \<Rightarrow> run init_system (es @ [Cleanup, Loop inp]) = Inr (Exited, cleanup s))"
proof -
  obtain pc s where s: "run init_system es = Inr (pc, s)" "tuned s"
    "cap_released s = cleanup_calls es"
    using run_init [of es] by blast
  have t: "tuned (cleanup s)" using s(2) by (simp add: tuned_cleanup)
  obtain s' where s': "tracking_tick (cleanup s) inp = Inr s'"
    "running s' = running (cleanup s)" "cap_released s' = cap_released (cleanup s)"
    using tracking_tick_total [OF t, of inp] by blast
  have "case pc of
        AtWhile \<Rightarrow> run init_system (es @ [Cleanup, Loop inp]) = Inr (Exited, cleanup s)
      | InBody \<Rightarrow>
          (\<exists>s'. tracking_tick (cleanup s) inp = Inr s' \<and>
             run init_system (es @ [Cleanup, Loop inp, Loop inp']) = Inr (Exited, s') \<and>
             cap_released s' = cleanup_calls es + 1)
      | Exited \<Rightarrow> run init_system (es @ [Cleanup, Loop inp]) = Inr (Exited, cleanup s)"
    using s(1,3) s' by (cases pc) (simp_all add: run_append cleanup_fields)
  then show ?thesis
    using s(1,3) by (auto simp add: run_append cleanup_fields)
qed

theorem cleanup_releases_without_join_witness:
  "run init_system [Loop (True, None), Cleanup, Loop (False, None), Loop (True, None)] =
     Inr (Exited, cleanup init_tracker) \<and>
   cap_released (cleanup init_tracker) = 1"
  using cleanup_releases_without_join [of "[Loop (True, None)]" "(False, None)" "(True, None)"]
  by (simp add: init_system_def init_tracker_def cleanup_def cleanup_calls_def tracking_tick_def)

text \<open>
  The claim as stated fails: with the background thread inside a tick, \<^verbatim>\<open>cleanup\<close>
  releases the capture although the thread has not left the loop.
\<close>

theorem cleanup_release_while_in_body:
  "run init_system [Loop (True, None), Cleanup] = Inr (InBody, cleanup init_tracker) \<and>
   cap_released (cleanup init_tracker) = 1 \<and> InBody \<noteq> Exited"
  by (simp add: init_system_def init_fields cleanup_fields)

section \<open>Rounding to binary64\<close>

subsection \<open>Rounding to an integer\<close>

lemma round_even_eqI:
  assumes "\<bar>t - of_int n\<bar> < 1 / 2 \<or> (\<bar>t - of_int n\<bar> = 1 / 2 \<and> even n)"
  shows "round_even t = n"
proof -
  from assms have b: "of_int (n - 1) \<le> t" "t < of_int (n + 1)"
    by (auto simp add: abs_if split: if_splits)
  then have "n - 1 \<le> \<lfloor>t\<rfloor>" "\<lfloor>t\<rfloor> < n + 1"
    by (simp_all only: le_floor_iff floor_less_iff)
  then have "\<lfloor>t\<rfloor> = n \<or> \<lfloor>t\<rfloor> = n - 1" by arith
  then show ?thesis
  proof
    assume n: "\<lfloor>t\<rfloor> = n"
    have "of_int \<lfloor>t\<rfloor> \<le> t" by simp
    with n assms have "t - of_int n < 1 / 2 \<or> (t - of_int n = 1 / 2 \<and> even n)"
      by (auto simp add: abs_if split: if_splits)
    with n show ?thesis by (auto simp add: round_even_def)
  next
    assume n: "\<lfloor>t\<rfloor> = n - 1"
    have "t < of_int \<lfloor>t\<rfloor> + 1" by linarith
    with n assms have "1 / 2 < t - of_int (n - 1) \<or> (t - of_int (n - 1) = 1 / 2 \<and> odd (n - 1))"
      by (auto simp add: abs_if split: if_splits)
    with n show ?thesis by (auto simp add: round_even_def)
  qed
qed

lemma round_even_cases: "round_even t = \<lfloor>t\<rfloor> \<or> round_even t = \<lfloor>t\<rfloor> + 1"
  by (simp add: round_even_def)

lemma round_even_char:
  "\<bar>t - of_int (round_even t)\<bar> < 1 / 2 \<or>
   (\<bar>t - of_int (round_even t)\<bar> = 1 / 2 \<and> even (round_even t))"
proof -
  have f: "of_int \<lfloor>t\<rfloor> \<le> t" "t < of_int \<lfloor>t\<rfloor> + 1" by linarith+
  show ?thesis
  proof (cases "t - of_int \<lfloor>t\<rfloor> < 1 / 2")
    case True
    then have r: "round_even t = \<lfloor>t\<rfloor>" by (simp add: round_even_def)
    from True f have "\<bar>t - of_int \<lfloor>t\<rfloor>\<bar> < 1 / 2" by linarith
    then show ?thesis by (simp only: r) simp
  next
    case False
    note nlt = this
    show ?thesis
    proof (cases "1 / 2 < t - of_int \<lfloor>t\<rfloor>")
      case True
      with nlt have r: "round_even t = \<lfloor>t\<rfloor> + 1" by (simp add: round_even_def)
      from True f have "\<bar>t - of_int (\<lfloor>t\<rfloor> + 1)\<bar> < 1 / 2" by simp
      then show ?thesis by (simp only: r) simp
    next
      case False
      with nlt have h: "t - of_int \<lfloor>t\<rfloor> = 1 / 2" by simp
      then have h1: "\<bar>t - of_int \<lfloor>t\<rfloor>\<bar> = 1 / 2" and h2: "\<bar>t - of_int (\<lfloor>t\<rfloor> + 1)\<bar> = 1 / 2"
        by simp_all
      show ?thesis
      proof (cases "even \<lfloor>t\<rfloor>")
        case True
        with h have r: "round_even t = \<lfloor>t\<rfloor>" by (simp add: round_even_def)
        from True h1 show ?thesis by (simp only: r) simp
      next
        case False
        with h have r: "round_even t = \<lfloor>t\<rfloor> + 1" by (simp add: round_even_def)
        from False have "even (\<lfloor>t\<rfloor> + 1)" by simp
        with h2 show ?thesis by (simp only: r) simp
      qed
    qed
  qed
qed

lemma round_even_of_int [simp]: "round_even (of_int n) = n"
  by (rule round_even_eqI) simp

lemma round_even_minus: "round_even (- t) = - round_even t"
proof (rule round_even_eqI)
  have "\<bar>- t - of_int (- round_even t)\<bar> = \<bar>t - of_int (round_even t)\<bar>"
    by (simp add: abs_if)
  with round_even_char [of t]
  show "\<bar>- t - of_int (- round_even t)\<bar> < 1 / 2 \<or>
    (\<bar>- t - of_int (- round_even t)\<bar> = 1 / 2 \<and> even (- round_even t))"
    by simp
qed

lemma round_even_error: "\<bar>of_int (round_even t) - t\<bar> \<le> 1 / 2"
proof -
  have "\<bar>of_int (round_even t) - t\<bar> = \<bar>t - of_int (round_even t)\<bar>"
    by (simp add: abs_if)
  with round_even_char [of t] show ?thesis by linarith
qed

lemma round_even_mono:
  assumes "s \<le> t"
  shows "round_even s \<le> round_even t"
proof (rule ccontr)
  assume "\<not> round_even s \<le> round_even t"
  then have gt: "round_even t + 1 \<le> round_even s" by simp
  then have r: "of_int (round_even t) + 1 \<le> (of_int (round_even s) :: real)"
    by (simp only: of_int_le_iff [symmetric, where ?'a = real] of_int_add of_int_1)
  have es: "\<bar>s - of_int (round_even s)\<bar> \<le> 1 / 2" and et: "\<bar>t - of_int (round_even t)\<bar> \<le> 1 / 2"
    using round_even_char [of s] round_even_char [of t] by linarith+
  from es et assms r have eq: "of_int (round_even s) - s = 1 / 2" "t - of_int (round_even t) = 1 / 2"
    "(of_int (round_even s) :: real) = of_int (round_even t) + 1"
    by (simp_all add: abs_if split: if_splits)
  then have "\<bar>s - of_int (round_even s)\<bar> = 1 / 2" "\<bar>t - of_int (round_even t)\<bar> = 1 / 2"
    by (simp_all add: abs_if)
  with round_even_char [of s] round_even_char [of t]
  have ev: "even (round_even s)" "even (round_even t)" by simp_all
  from eq(3) have "round_even s = round_even t + 1"
    by (simp only: of_int_eq_iff [symmetric, where ?'a = real] of_int_add of_int_1)
  with ev show False by simp
qed

subsection \<open>Monotonicity and error of the rounding\<close>

lemma ulp_pos: "0 < ulp x"
  by (simp add: ulp_def)

lemma ulp_exp_minus: "ulp_exp (- x) = ulp_exp x"
  by (simp add: ulp_exp_def)

lemma ulp_minus: "ulp (- x) = ulp x"
  by (simp add: ulp_def ulp_exp_minus)

lemma fl_0 [simp]: "fl 0 = 0"
  by (simp add: fl_def)

lemma fl_minus: "fl (- x) = - fl x"
  by (simp add: fl_def ulp_minus round_even_minus)

lemma binade:
  assumes "x \<noteq> 0"
  shows "2 powr of_int \<lfloor>log 2 \<bar>x\<bar>\<rfloor> \<le> \<bar>x\<bar>" "\<bar>x\<bar> < 2 powr of_int (\<lfloor>log 2 \<bar>x\<bar>\<rfloor> + 1)"
proof -
  have "0 < \<bar>x\<bar>" using assms by simp
  then have "2 powr of_int \<lfloor>log 2 \<bar>x\<bar>\<rfloor> \<le> \<bar>x\<bar> \<and> \<bar>x\<bar> < 2 powr of_int (\<lfloor>log 2 \<bar>x\<bar>\<rfloor> + 1)"
    using floor_log_eq_powr_iff [of "\<bar>x\<bar>" 2 "\<lfloor>log 2 \<bar>x\<bar>\<rfloor>"] by simp
  then show "2 powr of_int \<lfloor>log 2 \<bar>x\<bar>\<rfloor> \<le> \<bar>x\<bar>" "\<bar>x\<bar> < 2 powr of_int (\<lfloor>log 2 \<bar>x\<bar>\<rfloor> + 1)"
    by simp_all
qed

lemma ulp_exp_eqI:
  assumes "x \<noteq> 0" "2 powr of_int k \<le> \<bar>x\<bar>" "\<bar>x\<bar> < 2 powr of_int (k + 1)"
  shows "ulp_exp x = max (k - 52) (- 1074)"
proof -
  have "0 < \<bar>x\<bar>" using assms(1) by simp
  then have "\<lfloor>log 2 \<bar>x\<bar>\<rfloor> = k"
    using floor_log_eq_powr_iff [of "\<bar>x\<bar>" 2 k] assms(2,3) by simp
  then show ?thesis by (simp add: ulp_exp_def)
qed

lemma ulp_exp_ge: "- 1074 \<le> ulp_exp x"
  by (simp add: ulp_exp_def)

lemma ulp_exp_mono:
  assumes "0 < x" "x \<le> y"
  shows "ulp_exp x \<le> ulp_exp y"
proof -
  have "log 2 x \<le> log 2 y" using assms by simp
  then have "\<lfloor>log 2 \<bar>x\<bar>\<rfloor> \<le> \<lfloor>log 2 \<bar>y\<bar>\<rfloor>"
    using assms by (simp add: floor_mono)
  then show ?thesis by (simp add: ulp_exp_def)
qed

lemma scaled_less:
  assumes "0 < x"
  shows "x / ulp x < 2 powr 53"
proof -
  have "x < 2 powr of_int (\<lfloor>log 2 \<bar>x\<bar>\<rfloor> + 1)"
    using binade(2) [of x] assms by simp
  also have "\<dots> \<le> 2 powr of_int (ulp_exp x + 53)"
    by (rule powr_mono) (simp_all add: ulp_exp_def)
  also have "\<dots> = 2 powr 53 * ulp x"
    by (simp add: ulp_def powr_add)
  finally show ?thesis
    using ulp_pos [of x] by (simp add: pos_divide_less_eq)
qed

lemma scaled_ge:
  assumes "0 < x" "- 1074 < ulp_exp x"
  shows "2 powr 52 \<le> x / ulp x"
proof -
  from assms(2) have e: "ulp_exp x = \<lfloor>log 2 \<bar>x\<bar>\<rfloor> - 52"
    by (simp add: ulp_exp_def max_def split: if_splits)
  have "2 powr 52 * ulp x = 2 powr of_int (ulp_exp x + 52)"
    by (simp add: ulp_def powr_add)
  also have "\<dots> = 2 powr of_int \<lfloor>log 2 \<bar>x\<bar>\<rfloor>"
    by (simp add: e)
  also have "\<dots> \<le> x"
    using binade(1) [of x] assms(1) by simp
  finally show ?thesis
    using ulp_pos [of x] by (simp add: pos_le_divide_eq)
qed

lemma two_powr_53: "(2::real) powr 53 = of_int (2 ^ 53)" "(2::real) powr 52 = of_int (2 ^ 52)"
  by simp_all

lemma fl_pos_eq: "0 < x \<Longrightarrow> fl x = of_int (round_even (x / ulp x)) * ulp x"
  by (simp add: fl_def)

lemma round_scaled_le:
  assumes "0 < x"
  shows "round_even (x / ulp x) \<le> 2 ^ 53"
proof -
  have "round_even (x / ulp x) \<le> round_even (of_int (2 ^ 53))"
    using scaled_less [OF assms] by (intro round_even_mono) (simp only: two_powr_53)
  then show ?thesis by (simp only: round_even_of_int)
qed

lemma round_scaled_ge:
  assumes "0 < x" "- 1074 < ulp_exp x"
  shows "2 ^ 52 \<le> round_even (x / ulp x)"
proof -
  have "round_even (of_int (2 ^ 52)) \<le> round_even (x / ulp x)"
    using scaled_ge [OF assms] by (intro round_even_mono) (simp only: two_powr_53)
  then show ?thesis by (simp only: round_even_of_int)
qed

lemma round_scaled_nonneg:
  assumes "0 < x"
  shows "0 \<le> round_even (x / ulp x)"
proof -
  have "round_even (of_int 0) \<le> round_even (x / ulp x)"
    using assms ulp_pos [of x] by (intro round_even_mono) simp
  then show ?thesis by (simp only: round_even_of_int)
qed

lemma fl_nonneg: "0 \<le> x \<Longrightarrow> 0 \<le> fl x"
  using round_scaled_nonneg [of x] ulp_pos [of x]
  by (cases "x = 0") (simp_all add: fl_pos_eq)

lemma fl_upper:
  assumes "0 < x"
  shows "fl x \<le> 2 powr of_int (ulp_exp x + 53)"
proof -
  have "(of_int (round_even (x / ulp x)) :: real) \<le> of_int (2 ^ 53)"
    using round_scaled_le [OF assms] by (simp only: of_int_le_iff)
  then have "fl x \<le> of_int (2 ^ 53) * ulp x"
    using ulp_pos [of x] assms by (simp only: fl_pos_eq mult_le_cancel_right_pos)
  also have "\<dots> = 2 powr of_int (ulp_exp x + 53)"
    by (simp add: ulp_def powr_add)
  finally show ?thesis .
qed

lemma fl_lower:
  assumes "0 < x" "- 1074 < ulp_exp x"
  shows "2 powr of_int (ulp_exp x + 52) \<le> fl x"
proof -
  have "(of_int (2 ^ 52) :: real) \<le> of_int (round_even (x / ulp x))"
    using round_scaled_ge [OF assms] by (simp only: of_int_le_iff)
  then have "of_int (2 ^ 52) * ulp x \<le> fl x"
    using ulp_pos [of x] assms by (simp only: fl_pos_eq mult_le_cancel_right_pos)
  moreover have "of_int (2 ^ 52) * ulp x = 2 powr of_int (ulp_exp x + 52)"
    by (simp add: ulp_def powr_add)
  ultimately show ?thesis by simp
qed

lemma fl_mono_pos:
  assumes "0 < x" "x \<le> y"
  shows "fl x \<le> fl y"
proof (cases "ulp_exp x = ulp_exp y")
  case True
  then have u: "ulp x = ulp y" by (simp add: ulp_def)
  have "x / ulp y \<le> y / ulp y"
    using assms ulp_pos [of y] by (simp add: divide_right_mono)
  then have "round_even (x / ulp y) \<le> round_even (y / ulp y)"
    by (rule round_even_mono)
  then have "(of_int (round_even (x / ulp y)) :: real) \<le> of_int (round_even (y / ulp y))"
    by (simp only: of_int_le_iff)
  then show ?thesis
    using assms ulp_pos [of y] by (simp add: fl_pos_eq u mult_right_mono)
next
  case False
  with ulp_exp_mono [OF assms] have lt: "ulp_exp x < ulp_exp y" by simp
  have y: "0 < y" using assms by simp
  have ny: "- 1074 < ulp_exp y" using lt ulp_exp_ge [of x] by simp
  have "fl x \<le> 2 powr of_int (ulp_exp x + 53)"
    by (rule fl_upper [OF assms(1)])
  also have "\<dots> \<le> 2 powr of_int (ulp_exp y + 52)"
    using lt by (intro powr_mono) simp_all
  also have "\<dots> \<le> fl y"
    by (rule fl_lower [OF y ny])
  finally show ?thesis .
qed

lemma fl_mono:
  assumes "x \<le> y"
  shows "fl x \<le> fl y"
proof -
  consider "0 < x" | "x \<le> 0" "0 \<le> y" | "y < 0" by linarith
  then show ?thesis
  proof cases
    case 1
    then show ?thesis using assms by (rule fl_mono_pos)
  next
    case 2
    then have "0 \<le> fl y" "0 \<le> fl (- x)" by (simp_all add: fl_nonneg)
    then show ?thesis by (simp add: fl_minus)
  next
    case 3
    then have "fl (- y) \<le> fl (- x)" using assms by (intro fl_mono_pos) simp_all
    then show ?thesis by (simp add: fl_minus)
  qed
qed

lemma fl_error: "x \<noteq> 0 \<Longrightarrow> \<bar>fl x - x\<bar> \<le> ulp x / 2"
proof -
  assume nz: "x \<noteq> 0"
  have "fl x - x = (of_int (round_even (x / ulp x)) - x / ulp x) * ulp x"
    using nz ulp_pos [of x] by (simp add: fl_def left_diff_distrib)
  then have "\<bar>fl x - x\<bar> = \<bar>of_int (round_even (x / ulp x)) - x / ulp x\<bar> * ulp x"
    using ulp_pos [of x] by (simp add: abs_mult)
  also have "\<dots> \<le> 1 / 2 * ulp x"
    using ulp_pos [of x] by (intro mult_right_mono round_even_error) simp
  finally show ?thesis by simp
qed

lemma ulp_le:
  assumes "x \<noteq> 0"
  shows "ulp x \<le> max (\<bar>x\<bar> / 2 ^ 52) (2 powr (- 1074))"
proof (cases "- 1074 < ulp_exp x")
  case True
  then have e: "ulp_exp x = \<lfloor>log 2 \<bar>x\<bar>\<rfloor> - 52"
    by (simp add: ulp_exp_def max_def split: if_splits)
  have "ulp x * 2 powr 52 = 2 powr of_int (ulp_exp x + 52)"
    by (simp add: ulp_def powr_add)
  also have "\<dots> \<le> \<bar>x\<bar>"
    using binade(1) [OF assms] by (simp add: e)
  finally have "ulp x \<le> \<bar>x\<bar> / 2 ^ 52"
    by (simp add: pos_le_divide_eq)
  then show ?thesis by simp
next
  case False
  with ulp_exp_ge [of x] have "ulp_exp x = - 1074" by simp
  then have "ulp x = 2 powr (- 1074)" by (simp add: ulp_def)
  then show ?thesis by simp
qed

lemma fl_error_bound: "\<bar>fl x - x\<bar> \<le> max (\<bar>x\<bar> / 2 ^ 53) (2 powr (- 1075))"
proof (cases "x = 0")
  case True
  then show ?thesis by simp
next
  case False
  have h: "(2::real) powr (- 1075) = 2 powr (- 1074) / 2"
    by (simp add: powr_minus field_simps)
  have "\<bar>fl x - x\<bar> \<le> ulp x / 2" by (rule fl_error [OF False])
  also have "\<dots> \<le> max (\<bar>x\<bar> / 2 ^ 52) (2 powr (- 1074)) / 2"
    using ulp_le [OF False] by simp
  also have "\<dots> = max (\<bar>x\<bar> / 2 ^ 53) (2 powr (- 1075))"
    unfolding h by (simp add: max_def)
  finally show ?thesis .
qed

lemma fl_error_sum: "\<bar>fl x - x\<bar> \<le> \<bar>x\<bar> / 2 ^ 53 + 2 powr (- 1075)"
proof -
  have "max (\<bar>x\<bar> / 2 ^ 53) (2 powr (- 1075)) \<le> \<bar>x\<bar> / 2 ^ 53 + 2 powr (- 1075)"
    by simp
  with fl_error_bound [of x] show ?thesis by linarith
qed

subsection \<open>Representable numbers\<close>

lemma two_powr_nonneg_int:
  assumes "0 \<le> d"
  shows "(2::real) powr of_int d = of_int (2 ^ nat d)"
  using assms by (simp add: powr_int)

lemma fl_of_scaled_int:
  assumes "x \<noteq> 0" "x / ulp x = of_int M"
  shows "fl x = x"
proof -
  have "fl x = of_int M * ulp x"
    using assms by (simp add: fl_def)
  also have "\<dots> = x"
    using assms(2) ulp_pos [of x] by (simp add: field_simps)
  finally show ?thesis .
qed

lemma fl_repr_pos:
  assumes "0 < N" "N \<le> 2 ^ 53" "- 1074 \<le> e"
  shows "fl (of_int N * 2 powr of_int e) = of_int N * 2 powr of_int e"
proof -
  define y :: real where "y = of_int N * 2 powr of_int e"
  have ypos: "0 < y" using assms(1) by (simp add: y_def)
  have "(of_int N :: real) \<le> of_int (2 ^ 53)"
    using assms(2) by (simp only: of_int_le_iff)
  then have "y \<le> of_int (2 ^ 53) * 2 powr of_int e"
    unfolding y_def by (intro mult_right_mono) simp_all
  also have "\<dots> = 2 powr of_int (e + 53)"
    by (simp add: powr_add)
  finally have yle: "y \<le> 2 powr of_int (e + 53)" .
  let ?k = "\<lfloor>log 2 \<bar>y\<bar>\<rfloor>"
  have "2 powr of_int ?k \<le> y"
    using binade(1) [of y] ypos by simp
  with yle have "2 powr of_int ?k \<le> (2::real) powr of_int (e + 53)" by linarith
  then have kle: "?k \<le> e + 53" by simp
  have ule: "ulp_exp y \<le> e + 1"
    using kle assms(3) by (simp add: ulp_exp_def)
  have "\<exists>M. y / ulp y = of_int M"
  proof (cases "ulp_exp y \<le> e")
    case True
    then have d: "0 \<le> e - ulp_exp y" by simp
    have "y / ulp y = of_int N * 2 powr of_int (e - ulp_exp y)"
      by (simp add: y_def ulp_def powr_diff)
    also have "\<dots> = of_int N * of_int (2 ^ nat (e - ulp_exp y))"
      by (simp only: two_powr_nonneg_int [OF d])
    also have "\<dots> = of_int (N * 2 ^ nat (e - ulp_exp y))"
      by simp
    finally show ?thesis by blast
  next
    case False
    with ule have u: "ulp_exp y = e + 1" by simp
    then have "?k - 52 = e + 1"
      using assms(3) by (simp add: ulp_exp_def max_def split: if_splits)
    then have "?k = e + 53" by simp
    then have "2 powr of_int (e + 53) \<le> y"
      using binade(1) [of y] ypos by simp
    with yle have "y = 2 powr of_int (e + 53)" by simp
    moreover have "ulp y = 2 powr of_int (e + 1)"
      by (simp only: ulp_def u)
    ultimately have "y / ulp y = 2 powr of_int (e + 53) / 2 powr of_int (e + 1)"
      by (simp only:)
    also have "\<dots> = 2 powr 52"
      by (simp add: powr_diff [symmetric])
    also have "\<dots> = of_int (2 ^ 52)" by simp
    finally show ?thesis by blast
  qed
  then obtain M where "y / ulp y = of_int M" by blast
  with ypos have "fl y = y" by (intro fl_of_scaled_int) simp_all
  then show ?thesis by (simp only: y_def)
qed

lemma fl_repr:
  assumes "\<bar>N\<bar> \<le> 2 ^ 53" "- 1074 \<le> e"
  shows "fl (of_int N * 2 powr of_int e) = of_int N * 2 powr of_int e"
proof -
  consider "N = 0" | "0 < N" | "N < 0" by linarith
  then show ?thesis
  proof cases
    case 1
    then show ?thesis by simp
  next
    case 2
    with assms show ?thesis by (intro fl_repr_pos) simp_all
  next
    case 3
    with assms have "fl (of_int (- N) * 2 powr of_int e) = of_int (- N) * 2 powr of_int e"
      by (intro fl_repr_pos) simp_all
    then have "fl (- (of_int N * 2 powr of_int e)) = - (of_int N * 2 powr of_int e)"
      by simp
    then show ?thesis by (simp add: fl_minus)
  qed
qed

lemma fl_form:
  "\<exists>N. \<bar>N\<bar> \<le> 2 ^ 53 \<and> fl x = of_int N * 2 powr of_int (ulp_exp x)"
proof -
  consider "x = 0" | "0 < x" | "x < 0" by linarith
  then show ?thesis
  proof cases
    case 1
    then have "\<bar>0::int\<bar> \<le> 2 ^ 53 \<and> fl x = of_int 0 * 2 powr of_int (ulp_exp x)" by simp
    then show ?thesis by blast
  next
    case 2
    let ?N = "round_even (x / ulp x)"
    have "\<bar>?N\<bar> \<le> 2 ^ 53"
      using round_scaled_le [OF 2] round_scaled_nonneg [OF 2] by simp
    moreover have "fl x = of_int ?N * 2 powr of_int (ulp_exp x)"
      using 2 by (simp add: fl_pos_eq ulp_def)
    ultimately show ?thesis by blast
  next
    case 3
    then have p: "0 < - x" by simp
    let ?N = "round_even (- x / ulp (- x))"
    have "\<bar>- ?N\<bar> \<le> 2 ^ 53"
      using round_scaled_le [OF p] round_scaled_nonneg [OF p] by simp
    moreover have "fl (- x) = of_int ?N * 2 powr of_int (ulp_exp (- x))"
      using p by (simp only: fl_pos_eq ulp_def)
    then have "fl x = of_int (- ?N) * 2 powr of_int (ulp_exp x)"
      by (simp add: fl_minus ulp_exp_minus)
    ultimately show ?thesis by blast
  qed
qed

lemma fl_idem [simp]: "fl (fl x) = fl x"
proof -
  obtain N where N: "\<bar>N\<bar> \<le> 2 ^ 53" "fl x = of_int N * 2 powr of_int (ulp_exp x)"
    using fl_form [of x] by blast
  show ?thesis
    unfolding N(2) by (rule fl_repr [OF N(1) ulp_exp_ge])
qed

lemma fl_grid:
  assumes "fl x = x"
  shows "\<exists>n. x = of_int n * 2 powr (- 1074)"
proof -
  obtain N where N: "fl x = of_int N * 2 powr of_int (ulp_exp x)"
    using fl_form [of x] by blast
  have d: "0 \<le> ulp_exp x + 1074" using ulp_exp_ge [of x] by simp
  have "2 powr of_int (ulp_exp x) = 2 powr of_int (ulp_exp x + 1074) * (2::real) powr (- 1074)"
    by (simp add: powr_add [symmetric])
  also have "\<dots> = of_int (2 ^ nat (ulp_exp x + 1074)) * 2 powr (- 1074)"
    by (simp only: two_powr_nonneg_int [OF d])
  finally have "x = of_int (N * 2 ^ nat (ulp_exp x + 1074)) * 2 powr (- 1074)"
    using N assms by simp
  then show ?thesis by blast
qed

lemma fl_eval:
  assumes "x \<noteq> 0" "2 powr of_int k \<le> \<bar>x\<bar>" "\<bar>x\<bar> < 2 powr of_int (k + 1)"
    and "\<bar>x / 2 powr of_int (max (k - 52) (- 1074)) - of_int n\<bar> < 1 / 2 \<or>
         (\<bar>x / 2 powr of_int (max (k - 52) (- 1074)) - of_int n\<bar> = 1 / 2 \<and> even n)"
  shows "fl x = of_int n * 2 powr of_int (max (k - 52) (- 1074))"
proof -
  have e: "ulp_exp x = max (k - 52) (- 1074)"
    by (rule ulp_exp_eqI [OF assms(1,2,3)])
  have "round_even (x / ulp x) = n"
    unfolding ulp_def e by (rule round_even_eqI [OF assms(4)])
  then show ?thesis
    using assms(1) by (simp add: fl_def ulp_def e)
qed

section \<open>The interpolation step in binary64\<close>

lemma alpha64_value: "alpha64 = 3602879701896397 / 2 ^ 54"
proof -
  have "fl (1 / 5) = of_int 7205759403792794 * 2 powr of_int (max (- 3 - 52) (- 1074))"
    by (rule fl_eval) (simp_all add: powr_minus)
  then show ?thesis by (simp add: alpha64_def powr_minus)
qed

lemma alpha64_bounds: "0 < alpha64" "alpha64 \<le> 1 / 4" "\<bar>alpha64 - 1 / 5\<bar> \<le> 1 / 2 ^ 56"
  by (simp_all add: alpha64_value)

lemma grid_gap:
  assumes "fl v = v" "fl r = r" "v < r"
  shows "2 powr (- 1074) \<le> r - v"
proof -
  obtain n where n: "v = of_int n * 2 powr (- 1074)" using fl_grid [OF assms(1)] by blast
  obtain m where m: "r = of_int m * 2 powr (- 1074)" using fl_grid [OF assms(2)] by blast
  have "(of_int n :: real) < of_int m"
    using assms(3) unfolding n m by (simp add: mult_less_cancel_right)
  then have "n + 1 \<le> m" by simp
  then have "(of_int n :: real) + 1 \<le> of_int m"
    by (simp only: of_int_le_iff [symmetric, where ?'a = real] of_int_add of_int_1)
  then have "(of_int m - of_int n) * 2 powr (- 1074) \<ge> 1 * (2::real) powr (- 1074)"
    by (intro mult_right_mono) simp_all
  then show ?thesis unfolding n m by (simp add: left_diff_distrib)
qed

lemma fl_error_half:
  assumes "2 powr (- 1074) \<le> c" "\<bar>x\<bar> \<le> c"
  shows "\<bar>fl x - x\<bar> \<le> c / 2"
proof -
  have h: "(2::real) powr (- 1075) = 2 powr (- 1074) / 2"
    by (simp add: powr_minus field_simps)
  have "\<bar>x\<bar> / 2 ^ 53 \<le> \<bar>x\<bar> / 2"
    by (intro divide_left_mono) simp_all
  with assms have "max (\<bar>x\<bar> / 2 ^ 53) (2 powr (- 1075)) \<le> c / 2"
    unfolding h by simp
  with fl_error_bound [of x] show ?thesis by linarith
qed

lemma scaled_gap_le:
  assumes g: "2 powr (- 1074) \<le> g" and a: "0 \<le> a" "a \<le> 1 / 4"
  shows "0 \<le> fl (fl g * a)" "fl (fl g * a) \<le> g"
proof -
  have gpos: "0 < g" using g powr_gt_zero [of 2 "- 1074"] by linarith
  have "\<bar>fl g - g\<bar> \<le> g / 2"
    using g gpos by (intro fl_error_half) simp_all
  then have D: "fl g \<le> 3 / 2 * g" by linarith
  have D0: "0 \<le> fl g" using gpos by (intro fl_nonneg) simp
  have p0: "0 \<le> fl g * a" using D0 a by simp
  show "0 \<le> fl (fl g * a)" using p0 by (rule fl_nonneg)
  have "fl g * a \<le> (3 / 2 * g) * (1 / 4)"
    using D D0 a gpos by (intro mult_mono) simp_all
  then have pa: "fl g * a \<le> 3 / 8 * g" by simp
  have "\<bar>fl (fl g * a) - fl g * a\<bar> \<le> g / 2"
    using g p0 pa gpos by (intro fl_error_half) simp_all
  with pa show "fl (fl g * a) \<le> g" by linarith
qed

lemma step64_minus: "step64 a (- v) (- r) = - step64 a v r"
proof -
  have "- r - - v = - (r - v)" by simp
  then have "fl (- r - - v) = - fl (r - v)" by (simp only: fl_minus)
  then have "fl (fl (- r - - v) * a) = - fl (fl (r - v) * a)"
    by (simp add: fl_minus)
  then have "- v + fl (fl (- r - - v) * a) = - (v + fl (fl (r - v) * a))" by simp
  then show ?thesis by (simp only: step64_def fl_minus)
qed

lemma step64_up:
  assumes "fl v = v" "fl r = r" "v \<le> r" "0 \<le> a" "a \<le> 1 / 4"
  shows "v \<le> step64 a v r" "step64 a v r \<le> r"
proof -
  have b: "0 \<le> fl (fl (r - v) * a) \<and> fl (fl (r - v) * a) \<le> r - v"
  proof (cases "v = r")
    case True
    then show ?thesis by simp
  next
    case False
    with assms(3) have "v < r" by simp
    then have "2 powr (- 1074) \<le> r - v" by (rule grid_gap [OF assms(1,2)])
    then show ?thesis using scaled_gap_le [OF _ assms(4,5)] by blast
  qed
  then have "fl v \<le> fl (v + fl (fl (r - v) * a))" by (intro fl_mono) simp
  then show "v \<le> step64 a v r" by (simp add: step64_def assms(1))
  from b have "fl (v + fl (fl (r - v) * a)) \<le> fl r" by (intro fl_mono) simp
  then show "step64 a v r \<le> r" by (simp add: step64_def assms(2))
qed

lemma step64_down:
  assumes "fl v = v" "fl r = r" "r \<le> v" "0 \<le> a" "a \<le> 1 / 4"
  shows "r \<le> step64 a v r" "step64 a v r \<le> v"
proof -
  have "fl (- v) = - v" "fl (- r) = - r" "- v \<le> - r"
    using assms(1,2,3) by (simp_all add: fl_minus)
  from step64_up [OF this assms(4,5)]
  show "r \<le> step64 a v r" "step64 a v r \<le> v"
    by (simp_all add: step64_minus)
qed

lemma combine_errors:
  fixes x pq t3 t4 :: real
  assumes "a1 \<le> rK + eta" "pq \<le> qK + eta" "x \<le> wK + eta" "t3 \<le> a1 / 4" "t4 \<le> rK2"
    "wK \<le> W" "qK \<le> Q" "rK \<le> R" "rK2 \<le> R2"
  shows "x + pq + t3 + t4 \<le> W + eta + (Q + eta) + (R + eta) / 4 + R2"
  using assms by argo

lemma step64_close:
  fixes v r :: real
  defines "m \<equiv> max \<bar>v\<bar> \<bar>r\<bar>"
  shows "\<bar>step64 alpha64 v r - (v + (r - v) * (1 / 5))\<bar> \<le> m / 2 ^ 50 + 2 powr (- 1073)"
proof -
  define eta :: real where "eta = 2 powr (- 1075)"
  define rho where "rho = r - v"
  define D where "D = fl rho"
  define Q where "Q = D * alpha64"
  define P where "P = fl Q"
  define X where "X = fl (v + P)"
  define t3 where "t3 = alpha64 * (D - rho)"
  define t4 where "t4 = rho * (alpha64 - 1 / 5)"
  have eta0: "0 < eta" by (simp add: eta_def)
  have m0: "0 \<le> m" "\<bar>v\<bar> \<le> m" "\<bar>r\<bar> \<le> m" by (simp_all add: m_def)
  have rho: "\<bar>rho\<bar> \<le> 2 * m" using m0 unfolding rho_def by linarith
  have e1: "\<bar>D - rho\<bar> \<le> \<bar>rho\<bar> / 2 ^ 53 + eta"
    unfolding D_def eta_def by (rule fl_error_sum)
  have e2: "\<bar>P - Q\<bar> \<le> \<bar>Q\<bar> / 2 ^ 53 + eta"
    unfolding P_def eta_def by (rule fl_error_sum)
  have e3: "\<bar>X - (v + P)\<bar> \<le> \<bar>v + P\<bar> / 2 ^ 53 + eta"
    unfolding X_def eta_def by (rule fl_error_sum)
  have s: "\<bar>rho\<bar> / 2 ^ 53 \<le> \<bar>rho\<bar>"
    by (simp add: field_simps)
  have Db: "\<bar>D\<bar> \<le> 2 * \<bar>rho\<bar> + eta" using e1 s by linarith
  have "\<bar>Q\<bar> = \<bar>D\<bar> * alpha64"
    using alpha64_bounds(1) by (simp add: Q_def abs_mult)
  also have "\<dots> \<le> \<bar>D\<bar> * (1 / 4)"
    using alpha64_bounds(2) by (intro mult_left_mono) simp_all
  finally have Qb: "\<bar>Q\<bar> \<le> \<bar>D\<bar> / 4" by simp
  have s2: "\<bar>Q\<bar> / 2 ^ 53 \<le> \<bar>Q\<bar>"
    by (simp add: field_simps)
  have Pb: "\<bar>P\<bar> \<le> 2 * \<bar>Q\<bar> + eta" using e2 s2 by linarith
  have "\<bar>t3\<bar> = alpha64 * \<bar>D - rho\<bar>"
    using alpha64_bounds(1) by (simp add: t3_def abs_mult)
  also have "\<dots> \<le> 1 / 4 * \<bar>D - rho\<bar>"
    using alpha64_bounds(2) by (intro mult_right_mono) simp_all
  finally have t3b: "\<bar>t3\<bar> \<le> \<bar>D - rho\<bar> / 4" by simp
  have "\<bar>t4\<bar> = \<bar>rho\<bar> * \<bar>alpha64 - 1 / 5\<bar>"
    by (simp add: t4_def abs_mult)
  also have "\<dots> \<le> \<bar>rho\<bar> * (1 / 2 ^ 56)"
    using alpha64_bounds(3) by (intro mult_left_mono) simp_all
  finally have t4b: "\<bar>t4\<bar> \<le> \<bar>rho\<bar> / 2 ^ 56" by simp
  have split: "X - (v + rho * (1 / 5)) = (X - (v + P)) + (P - Q) + t3 + t4"
    by (simp add: t3_def t4_def Q_def algebra_simps)
  have d1: "\<bar>v + P\<bar> / 2 ^ 53 \<le> (3 * m + 3 * eta) / 2 ^ 53"
    using Pb Qb Db rho m0 eta0 by (intro divide_right_mono) (linarith, simp)
  have d2: "\<bar>Q\<bar> / 2 ^ 53 \<le> (m + eta) / 2 ^ 53"
    using Qb Db rho eta0 by (intro divide_right_mono) (linarith, simp)
  have d3: "\<bar>rho\<bar> / 2 ^ 53 \<le> 2 * m / 2 ^ 53"
    using rho by (intro divide_right_mono) (linarith, simp)
  have d4: "\<bar>rho\<bar> / 2 ^ 56 \<le> 2 * m / 2 ^ 56"
    using rho by (intro divide_right_mono) (linarith, simp)
  have "\<bar>X - (v + rho * (1 / 5))\<bar> \<le> \<bar>X - (v + P)\<bar> + \<bar>P - Q\<bar> + \<bar>t3\<bar> + \<bar>t4\<bar>"
    unfolding split by linarith
  also have "\<dots> \<le> (3 * m + 3 * eta) / 2 ^ 53 + eta + ((m + eta) / 2 ^ 53 + eta)
      + (2 * m / 2 ^ 53 + eta) / 4 + 2 * m / 2 ^ 56"
    by (rule combine_errors [OF e1 e2 e3 t3b t4b d1 d2 d3 d4])
  also have "\<dots> \<le> m / 2 ^ 50 + 4 * eta"
    using m0(1) eta0 by (simp add: field_simps)
  also have "4 * eta = 2 powr (- 1073)"
    by (simp add: eta_def powr_minus field_simps)
  finally show ?thesis
    by (simp add: X_def P_def Q_def D_def rho_def step64_def)
qed

lemma step64_value_1: "step64 (3602879701896397 / 2 ^ 54) (0) 1 = 3602879701896397 / 2 ^ 54"
proof -
  have "fl (1 - 0) = of_int 4503599627370496 * 2 powr of_int (max (0 - 52) (- 1074))"
    by (rule fl_eval) (simp_all add: powr_minus)
  then have d: "fl (1 - 0) = 1"
    by (simp add: powr_minus)
  have "fl (1 * (3602879701896397 / 2 ^ 54)) = of_int 7205759403792794 * 2 powr of_int (max (- 3 - 52) (- 1074))"
    by (rule fl_eval) (simp_all add: powr_minus)
  then have p: "fl (1 * (3602879701896397 / 2 ^ 54)) = 3602879701896397 / 2 ^ 54"
    by (simp add: powr_minus)
  have "fl (0 + 3602879701896397 / 2 ^ 54) = of_int 7205759403792794 * 2 powr of_int (max (- 3 - 52) (- 1074))"
    by (rule fl_eval) (simp_all add: powr_minus)
  then have x: "fl (0 + 3602879701896397 / 2 ^ 54) = 3602879701896397 / 2 ^ 54"
    by (simp add: powr_minus)
  show ?thesis
    by (simp only: step64_def d p x)
qed

lemma step64_value_2: "step64 (3602879701896397 / 2 ^ 54) (3602879701896397 / 2 ^ 54) 1 = 6485183463413515 / 2 ^ 54"
proof -
  have "fl (1 - 3602879701896397 / 2 ^ 54) = of_int 7205759403792794 * 2 powr of_int (max (- 1 - 52) (- 1074))"
    by (rule fl_eval) (simp_all add: powr_minus)
  then have d: "fl (1 - 3602879701896397 / 2 ^ 54) = 3602879701896397 / 2 ^ 52"
    by (simp add: powr_minus)
  have "fl ((3602879701896397 / 2 ^ 52) * (3602879701896397 / 2 ^ 54)) = of_int 5764607523034236 * 2 powr of_int (max (- 3 - 52) (- 1074))"
    by (rule fl_eval) (simp_all add: powr_minus)
  then have p: "fl ((3602879701896397 / 2 ^ 52) * (3602879701896397 / 2 ^ 54)) = 1441151880758559 / 2 ^ 53"
    by (simp add: powr_minus)
  have "fl (3602879701896397 / 2 ^ 54 + 1441151880758559 / 2 ^ 53) = of_int 6485183463413515 * 2 powr of_int (max (- 2 - 52) (- 1074))"
    by (rule fl_eval) (simp_all add: powr_minus)
  then have x: "fl (3602879701896397 / 2 ^ 54 + 1441151880758559 / 2 ^ 53) = 6485183463413515 / 2 ^ 54"
    by (simp add: powr_minus)
  show ?thesis
    by (simp only: step64_def d p x)
qed

lemma step64_value_3: "step64 (3602879701896397 / 2 ^ 54) (6485183463413515 / 2 ^ 54) 1 = 1098878309078401 / 2 ^ 51"
proof -
  have "fl (1 - 6485183463413515 / 2 ^ 54) = of_int 5764607523034234 * 2 powr of_int (max (- 1 - 52) (- 1074))"
    by (rule fl_eval) (simp_all add: powr_minus)
  then have d: "fl (1 - 6485183463413515 / 2 ^ 54) = 2882303761517117 / 2 ^ 52"
    by (simp add: powr_minus)
  have "fl ((2882303761517117 / 2 ^ 52) * (3602879701896397 / 2 ^ 54)) = of_int 4611686018427387 * 2 powr of_int (max (- 3 - 52) (- 1074))"
    by (rule fl_eval) (simp_all add: powr_minus)
  then have p: "fl ((2882303761517117 / 2 ^ 52) * (3602879701896397 / 2 ^ 54)) = 4611686018427387 / 2 ^ 55"
    by (simp add: powr_minus)
  have "fl (6485183463413515 / 2 ^ 54 + 4611686018427387 / 2 ^ 55) = of_int 8791026472627208 * 2 powr of_int (max (- 2 - 52) (- 1074))"
    by (rule fl_eval) (simp_all add: powr_minus)
  then have x: "fl (6485183463413515 / 2 ^ 54 + 4611686018427387 / 2 ^ 55) = 1098878309078401 / 2 ^ 51"
    by (simp add: powr_minus)
  show ?thesis
    by (simp only: step64_def d p x)
qed

lemma advance_f64_fields:
  "dx (advance_f64 s) = step64 (smoothing_factor s) (dx s) (raw_dx s)"
  "dy (advance_f64 s) = step64 (smoothing_factor s) (dy s) (raw_dy s)"
  "raw_dx (advance_f64 s) = raw_dx s"
  "raw_dy (advance_f64 s) = raw_dy s"
  "smoothing_factor (advance_f64 s) = smoothing_factor s"
  "dx_history (advance_f64 s) = dx_history s"
  "dy_history (advance_f64 s) = dy_history s"
  "history_size (advance_f64 s) = history_size s"
  "running (advance_f64 s) = running s"
  "cap_released (advance_f64 s) = cap_released s"
  by (simp_all add: advance_f64_def step64_def)

lemma f64_simps: "f64 0" "f64 1"
proof -
  show "f64 0" by (simp add: f64_def)
  have "fl (of_int 1 * 2 powr of_int 0) = of_int 1 * 2 powr of_int 0"
    by (rule fl_repr) simp_all
  then show "f64 1" by (simp add: f64_def)
qed

lemma step64_between:
  assumes "f64 v" "f64 r"
  shows "(v \<le> r \<longrightarrow> v \<le> step64 alpha64 v r \<and> step64 alpha64 v r \<le> r) \<and>
         (r \<le> v \<longrightarrow> r \<le> step64 alpha64 v r \<and> step64 alpha64 v r \<le> v)"
  using assms step64_up [of v r alpha64] step64_down [of v r alpha64] alpha64_bounds(1,2)
  by (simp add: f64_def)

lemma step64_f64:
  assumes "f64 v" "f64 r"
  shows "f64 (step64 alpha64 v r)"
proof -
  have "fl (step64 alpha64 v r) = step64 alpha64 v r"
    by (simp add: step64_def)
  moreover have "\<bar>step64 alpha64 v r\<bar> \<le> 2 ^ 1022"
    using step64_between [OF assms] assms by (auto simp add: f64_def abs_le_iff)
  ultimately show ?thesis by (simp add: f64_def)
qed

lemma advance_f64_funpow_fixed:
  "raw_dx ((advance_f64 ^^ n) s) = raw_dx s \<and> raw_dy ((advance_f64 ^^ n) s) = raw_dy s \<and>
   smoothing_factor ((advance_f64 ^^ n) s) = smoothing_factor s"
  by (induction n) (simp_all add: advance_f64_fields)

lemma advance_f64_funpow_dx:
  assumes "smoothing_factor s = alpha64" "f64 (dx s)" "f64 (raw_dx s)"
  shows "f64 (dx ((advance_f64 ^^ n) s)) \<and>
         (dx s \<le> raw_dx s \<longrightarrow>
            dx s \<le> dx ((advance_f64 ^^ n) s) \<and> dx ((advance_f64 ^^ n) s) \<le> raw_dx s) \<and>
         (raw_dx s \<le> dx s \<longrightarrow>
            raw_dx s \<le> dx ((advance_f64 ^^ n) s) \<and> dx ((advance_f64 ^^ n) s) \<le> dx s)"
proof (induction n)
  case 0
  show ?case using assms(2) by simp
next
  case (Suc n)
  let ?t = "(advance_f64 ^^ n) s"
  have t: "raw_dx ?t = raw_dx s" "smoothing_factor ?t = alpha64"
    using advance_f64_funpow_fixed [of n s] assms(1) by simp_all
  have d: "dx ((advance_f64 ^^ Suc n) s) = step64 alpha64 (dx ?t) (raw_dx s)"
    by (simp add: advance_f64_fields t)
  from Suc.IH have f: "f64 (dx ?t)" by simp
  from step64_between [OF f assms(3)] step64_f64 [OF f assms(3)] Suc.IH
  show ?case unfolding d by (auto simp add: t)
qed

lemma advance_f64_funpow_dy:
  assumes "smoothing_factor s = alpha64" "f64 (dy s)" "f64 (raw_dy s)"
  shows "f64 (dy ((advance_f64 ^^ n) s)) \<and>
         (dy s \<le> raw_dy s \<longrightarrow>
            dy s \<le> dy ((advance_f64 ^^ n) s) \<and> dy ((advance_f64 ^^ n) s) \<le> raw_dy s) \<and>
         (raw_dy s \<le> dy s \<longrightarrow>
            raw_dy s \<le> dy ((advance_f64 ^^ n) s) \<and> dy ((advance_f64 ^^ n) s) \<le> dy s)"
proof (induction n)
  case 0
  show ?case using assms(2) by simp
next
  case (Suc n)
  let ?t = "(advance_f64 ^^ n) s"
  have t: "raw_dy ?t = raw_dy s" "smoothing_factor ?t = alpha64"
    using advance_f64_funpow_fixed [of n s] assms(1) by simp_all
  have d: "dy ((advance_f64 ^^ Suc n) s) = step64 alpha64 (dy ?t) (raw_dy s)"
    by (simp add: advance_f64_fields t)
  from Suc.IH have f: "f64 (dy ?t)" by simp
  from step64_between [OF f assms(3)] step64_f64 [OF f assms(3)] Suc.IH
  show ?case unfolding d by (auto simp add: t)
qed

lemma advance_f64_error:
  assumes "smoothing_factor s = alpha64"
  shows "\<bar>(raw_dx s - dx (advance_f64 s)) - (1 - 0.20) * (raw_dx s - dx s)\<bar>
           \<le> max \<bar>dx s\<bar> \<bar>raw_dx s\<bar> / 2 ^ 50 + 2 powr (- 1073)"
    and "\<bar>(raw_dy s - dy (advance_f64 s)) - (1 - 0.20) * (raw_dy s - dy s)\<bar>
           \<le> max \<bar>dy s\<bar> \<bar>raw_dy s\<bar> / 2 ^ 50 + 2 powr (- 1073)"
proof -
  have e: "\<bar>(r - x) - (1 - 0.20) * (r - v)\<bar> = \<bar>x - (v + (r - v) * (1 / 5))\<bar>" for r x v :: real
  proof -
    have "(r - x) - (1 - 0.20) * (r - v) = - (x - (v + (r - v) * (1 / 5)))"
      by (simp add: field_simps)
    then show ?thesis by (simp only: abs_minus)
  qed
  show "\<bar>(raw_dx s - dx (advance_f64 s)) - (1 - 0.20) * (raw_dx s - dx s)\<bar>
           \<le> max \<bar>dx s\<bar> \<bar>raw_dx s\<bar> / 2 ^ 50 + 2 powr (- 1073)"
    unfolding e advance_f64_fields assms by (rule step64_close)
  show "\<bar>(raw_dy s - dy (advance_f64 s)) - (1 - 0.20) * (raw_dy s - dy s)\<bar>
           \<le> max \<bar>dy s\<bar> \<bar>raw_dy s\<bar> / 2 ^ 50 + 2 powr (- 1073)"
    unfolding e advance_f64_fields assms by (rule step64_close)
qed

lemma three_steps:
  assumes "smoothing_factor s = alpha64" "dx s = 0" "raw_dx s = 1"
  shows "dx (advance_f64 s) = 3602879701896397 / 2 ^ 54"
    "dx (advance_f64 (advance_f64 s)) = 6485183463413515 / 2 ^ 54"
    "dx (advance_f64 (advance_f64 (advance_f64 s))) = 1098878309078401 / 2 ^ 51"
proof -
  let ?s1 = "advance_f64 s"
  let ?s2 = "advance_f64 ?s1"
  have "dx ?s1 = step64 (smoothing_factor s) (dx s) (raw_dx s)"
    by (rule advance_f64_fields(1))
  also have "\<dots> = 3602879701896397 / 2 ^ 54"
    using step64_value_1 by (simp only: assms alpha64_value)
  finally show 1: "dx ?s1 = 3602879701896397 / 2 ^ 54" .
  have "dx ?s2 = step64 (smoothing_factor ?s1) (dx ?s1) (raw_dx ?s1)"
    by (rule advance_f64_fields(1))
  also have "\<dots> = 6485183463413515 / 2 ^ 54"
    using step64_value_2 by (simp only: advance_f64_fields(3,5) assms alpha64_value 1)
  finally show 2: "dx ?s2 = 6485183463413515 / 2 ^ 54" .
  have "dx (advance_f64 ?s2) = step64 (smoothing_factor ?s2) (dx ?s2) (raw_dx ?s2)"
    by (rule advance_f64_fields(1))
  also have "\<dots> = 1098878309078401 / 2 ^ 51"
    using step64_value_3 by (simp only: advance_f64_fields(3,5) assms alpha64_value 2)
  finally show "dx (advance_f64 ?s2) = 1098878309078401 / 2 ^ 51" .
qed

text \<open>
  Claim C4, as the code has it. Let the factor be the binary64 number of the literal
  0.20 and let smoothed and raw direction be binary64 numbers. An interpolation step
  leaves the raw direction as it is, and after any number of steps the smoothed value
  lies between where it started and the raw value: it moves towards the raw value and
  never overshoots. One step multiplies the error \<open>raw_dx - dx\<close> by \<open>1 - 0.20\<close> up to
  rounding only: the deviation is at most \<open>max |dx| |raw_dx| / 2\<^sup>5\<^sup>0 + 2\<^sup>-\<^sup>1\<^sup>0\<^sup>7\<^sup>3\<close>. From
  \<open>dx = 0\<close> and \<open>raw_dx = 1\<close>, three steps give values within \<open>1e-9\<close> of 0.2, 0.36 and
  0.488.
\<close>

theorem advance_f64_converges:
  "smoothing_factor s = alpha64 \<and> f64 (dx s) \<and> f64 (raw_dx s) \<and> f64 (dy s) \<and> f64 (raw_dy s) \<longrightarrow>
     raw_dx ((advance_f64 ^^ n) s) = raw_dx s \<and> raw_dy ((advance_f64 ^^ n) s) = raw_dy s \<and>
     (dx s \<le> raw_dx s \<longrightarrow>
        dx s \<le> dx ((advance_f64 ^^ n) s) \<and> dx ((advance_f64 ^^ n) s) \<le> raw_dx s) \<and>
     (raw_dx s \<le> dx s \<longrightarrow>
        raw_dx s \<le> dx ((advance_f64 ^^ n) s) \<and> dx ((advance_f64 ^^ n) s) \<le> dx s) \<and>
     (dy s \<le> raw_dy s \<longrightarrow>
        dy s \<le> dy ((advance_f64 ^^ n) s) \<and> dy ((advance_f64 ^^ n) s) \<le> raw_dy s) \<and>
     (raw_dy s \<le> dy s \<longrightarrow>
        raw_dy s \<le> dy ((advance_f64 ^^ n) s) \<and> dy ((advance_f64 ^^ n) s) \<le> dy s) \<and>
     \<bar>(raw_dx s - dx (advance_f64 s)) - (1 - 0.20) * (raw_dx s - dx s)\<bar>
        \<le> max \<bar>dx s\<bar> \<bar>raw_dx s\<bar> / 2 ^ 50 + 2 powr (- 1073) \<and>
     \<bar>(raw_dy s - dy (advance_f64 s)) - (1 - 0.20) * (raw_dy s - dy s)\<bar>
        \<le> max \<bar>dy s\<bar> \<bar>raw_dy s\<bar> / 2 ^ 50 + 2 powr (- 1073) \<and>
     (dx s = 0 \<and> raw_dx s = 1 \<longrightarrow>
        \<bar>dx (advance_f64 s) - 0.2\<bar> \<le> 1 / 10 ^ 9 \<and>
        \<bar>dx (advance_f64 (advance_f64 s)) - 0.36\<bar> \<le> 1 / 10 ^ 9 \<and>
        \<bar>dx (advance_f64 (advance_f64 (advance_f64 s))) - 0.488\<bar> \<le> 1 / 10 ^ 9)"
proof (intro impI, elim conjE)
  assume a: "smoothing_factor s = alpha64" and x: "f64 (dx s)" "f64 (raw_dx s)"
    and y: "f64 (dy s)" "f64 (raw_dy s)"
  have vals: "dx s = 0 \<and> raw_dx s = 1 \<longrightarrow>
        \<bar>dx (advance_f64 s) - 0.2\<bar> \<le> 1 / 10 ^ 9 \<and>
        \<bar>dx (advance_f64 (advance_f64 s)) - 0.36\<bar> \<le> 1 / 10 ^ 9 \<and>
        \<bar>dx (advance_f64 (advance_f64 (advance_f64 s))) - 0.488\<bar> \<le> 1 / 10 ^ 9"
  proof (intro impI, elim conjE)
    assume 0: "dx s = 0" "raw_dx s = 1"
    show "\<bar>dx (advance_f64 s) - 0.2\<bar> \<le> 1 / 10 ^ 9 \<and>
        \<bar>dx (advance_f64 (advance_f64 s)) - 0.36\<bar> \<le> 1 / 10 ^ 9 \<and>
        \<bar>dx (advance_f64 (advance_f64 (advance_f64 s))) - 0.488\<bar> \<le> 1 / 10 ^ 9"
      unfolding three_steps [OF a 0] by simp
  qed
  from advance_f64_funpow_fixed [of n s] advance_f64_funpow_dx [OF a x, of n]
    advance_f64_funpow_dy [OF a y, of n] advance_f64_error [OF a] vals
  show "raw_dx ((advance_f64 ^^ n) s) = raw_dx s \<and> raw_dy ((advance_f64 ^^ n) s) = raw_dy s \<and>
     (dx s \<le> raw_dx s \<longrightarrow>
        dx s \<le> dx ((advance_f64 ^^ n) s) \<and> dx ((advance_f64 ^^ n) s) \<le> raw_dx s) \<and>
     (raw_dx s \<le> dx s \<longrightarrow>
        raw_dx s \<le> dx ((advance_f64 ^^ n) s) \<and> dx ((advance_f64 ^^ n) s) \<le> dx s) \<and>
     (dy s \<le> raw_dy s \<longrightarrow>
        dy s \<le> dy ((advance_f64 ^^ n) s) \<and> dy ((advance_f64 ^^ n) s) \<le> raw_dy s) \<and>
     (raw_dy s \<le> dy s \<longrightarrow>
        raw_dy s \<le> dy ((advance_f64 ^^ n) s) \<and> dy ((advance_f64 ^^ n) s) \<le> dy s) \<and>
     \<bar>(raw_dx s - dx (advance_f64 s)) - (1 - 0.20) * (raw_dx s - dx s)\<bar>
        \<le> max \<bar>dx s\<bar> \<bar>raw_dx s\<bar> / 2 ^ 50 + 2 powr (- 1073) \<and>
     \<bar>(raw_dy s - dy (advance_f64 s)) - (1 - 0.20) * (raw_dy s - dy s)\<bar>
        \<le> max \<bar>dy s\<bar> \<bar>raw_dy s\<bar> / 2 ^ 50 + 2 powr (- 1073) \<and>
     (dx s = 0 \<and> raw_dx s = 1 \<longrightarrow>
        \<bar>dx (advance_f64 s) - 0.2\<bar> \<le> 1 / 10 ^ 9 \<and>
        \<bar>dx (advance_f64 (advance_f64 s)) - 0.36\<bar> \<le> 1 / 10 ^ 9 \<and>
        \<bar>dx (advance_f64 (advance_f64 (advance_f64 s))) - 0.488\<bar> \<le> 1 / 10 ^ 9)"
    by blast
qed

text \<open>
  The theorem at the constructor's state with raw direction \<open>(1, 0)\<close>, for three steps.
\<close>

theorem advance_f64_converges_witness:
  "smoothing_factor (init_tracker_f64\<lparr>raw_dx := 1\<rparr>) = alpha64 \<and>
   f64 (dx (init_tracker_f64\<lparr>raw_dx := 1\<rparr>)) \<and> f64 (raw_dx (init_tracker_f64\<lparr>raw_dx := 1\<rparr>)) \<and>
   f64 (dy (init_tracker_f64\<lparr>raw_dx := 1\<rparr>)) \<and> f64 (raw_dy (init_tracker_f64\<lparr>raw_dx := 1\<rparr>)) \<and>
   dx (init_tracker_f64\<lparr>raw_dx := 1\<rparr>) = 0 \<and> raw_dx (init_tracker_f64\<lparr>raw_dx := 1\<rparr>) = 1 \<and>
   0 \<le> dx ((advance_f64 ^^ 3) (init_tracker_f64\<lparr>raw_dx := 1\<rparr>)) \<and>
   dx ((advance_f64 ^^ 3) (init_tracker_f64\<lparr>raw_dx := 1\<rparr>)) \<le> 1 \<and>
   \<bar>dx (advance_f64 (init_tracker_f64\<lparr>raw_dx := 1\<rparr>)) - 0.2\<bar> \<le> 1 / 10 ^ 9 \<and>
   \<bar>dx (advance_f64 (advance_f64 (init_tracker_f64\<lparr>raw_dx := 1\<rparr>))) - 0.36\<bar> \<le> 1 / 10 ^ 9 \<and>
   \<bar>dx (advance_f64 (advance_f64 (advance_f64 (init_tracker_f64\<lparr>raw_dx := 1\<rparr>)))) - 0.488\<bar>
     \<le> 1 / 10 ^ 9"
proof -
  let ?s = "init_tracker_f64\<lparr>raw_dx := 1\<rparr>"
  have h: "smoothing_factor ?s = alpha64" "f64 (dx ?s)" "f64 (raw_dx ?s)" "f64 (dy ?s)"
    "f64 (raw_dy ?s)" "dx ?s = 0" "raw_dx ?s = 1"
    by (simp_all add: init_tracker_f64_def init_tracker_def f64_simps)
  from advance_f64_converges [of ?s 3] h show ?thesis
    by simp
qed

text \<open>
  The claim as stated fails in the second step already: the smoothed value is
  \<open>0.36000000000000004\<close>, which is neither the real number 0.36 nor its binary64
  number, and the error \<open>raw_dx - dx\<close> is not the previous error times \<open>1 - smoothing_factor\<close>,
  nor times \<open>1 - 0.20\<close>.
\<close>

theorem advance_f64_not_exact:
  "dx (advance_f64 (advance_f64 (init_tracker_f64\<lparr>raw_dx := 1\<rparr>))) = 6485183463413515 / 2 ^ 54 \<and>
   (6485183463413515 / 2 ^ 54 :: real) \<noteq> 0.36 \<and>
   fl 0.36 = 3242591731706757 / 2 ^ 53 \<and>
   raw_dx (init_tracker_f64\<lparr>raw_dx := 1\<rparr>)
       - dx (advance_f64 (advance_f64 (init_tracker_f64\<lparr>raw_dx := 1\<rparr>))) \<noteq>
     (1 - smoothing_factor (init_tracker_f64\<lparr>raw_dx := 1\<rparr>)) *
       (raw_dx (init_tracker_f64\<lparr>raw_dx := 1\<rparr>) - dx (advance_f64 (init_tracker_f64\<lparr>raw_dx := 1\<rparr>))) \<and>
   raw_dx (init_tracker_f64\<lparr>raw_dx := 1\<rparr>)
       - dx (advance_f64 (advance_f64 (init_tracker_f64\<lparr>raw_dx := 1\<rparr>))) \<noteq>
     (1 - 0.20) *
       (raw_dx (init_tracker_f64\<lparr>raw_dx := 1\<rparr>) - dx (advance_f64 (init_tracker_f64\<lparr>raw_dx := 1\<rparr>)))"
proof -
  let ?s = "init_tracker_f64\<lparr>raw_dx := 1\<rparr>"
  have h: "smoothing_factor ?s = alpha64" "dx ?s = 0" "raw_dx ?s = 1"
    by (simp_all add: init_tracker_f64_def init_tracker_def)
  have "fl (9 / 25) = of_int 6485183463413514 * 2 powr of_int (max (- 2 - 52) (- 1074))"
    by (rule fl_eval) (simp_all add: powr_minus)
  then have r: "fl 0.36 = 3242591731706757 / 2 ^ 53"
    by (simp add: powr_minus)
  show ?thesis
    unfolding three_steps [OF h] h(1,3) alpha64_value r by simp
qed

end
